theory Spec2Isabelle
  imports Main "HOL-Library.AList" "HOL-Library.Word"
begin

unbundle bit_operations_syntax

section \<open>Data model\<close>

text \<open>
  The handlers of \<^verbatim>\<open>src/handlers/channel.ts\<close> work on snowflake ids (strings),
  permission bitmasks and a module-level scheduler state. The declarations of
  \<^verbatim>\<open>RawOverwrite\<close>, \<^verbatim>\<open>ChannelEditOptions\<close>, \<^verbatim>\<open>Permissions\<close> and \<^verbatim>\<open>Errors\<close>
  live in type modules that the handlers only import; the records below carry the fields
  that the handlers read.
\<close>

type_synonym snowflake = string

text \<open>
  A raw overwrite as the cache holds it. The handlers read \<^verbatim>\<open>id\<close>, \<^verbatim>\<open>allow\<close> and
  \<^verbatim>\<open>deny\<close>; the two masks are kept as the integers that \<^verbatim>\<open>BigInt(overwrite.allow)\<close> and
  \<^verbatim>\<open>BigInt(overwrite.deny)\<close> evaluate to. A JavaScript BigInt is an unbounded two's
  complement integer, which is what \<^typ>\<open>int\<close> with \<open>AND\<close> and \<open>OR\<close> is.
\<close>

record RawOverwrite =
  raw_id :: snowflake
  raw_allow :: int
  raw_deny :: int

section \<open>Permission resolver\<close>

text \<open>
  \<^verbatim>\<open>overwrites.find((perm) => perm.id === id) || overwrites.find((perm) => perm.id === guildID)\<close>:
  an object is truthy, so the second search runs exactly when the first finds nothing.
\<close>

definition matched_overwrite ::
  "snowflake \<Rightarrow> snowflake \<Rightarrow> RawOverwrite list \<Rightarrow> RawOverwrite option" where
  "matched_overwrite guildID id' overwrites =
     (case find (\<lambda>perm. raw_id perm = id') overwrites of
        Some overwrite \<Rightarrow> Some overwrite
      | None \<Rightarrow> find (\<lambda>perm. raw_id perm = guildID) overwrites)"

text \<open>
  The callback of \<^verbatim>\<open>permissions.every\<close>. A BigInt is truthy exactly when it is not zero.
\<close>

definition overwrite_grants :: "RawOverwrite option \<Rightarrow> int \<Rightarrow> bool" where
  "overwrite_grants overwrite perm =
     (case overwrite of
        Some ow \<Rightarrow>
          if raw_deny ow AND perm \<noteq> 0 then False
          else if raw_allow ow AND perm \<noteq> 0 then True
          else False
      | None \<Rightarrow> False)"

definition channelOverwriteHasPermission ::
  "snowflake \<Rightarrow> snowflake \<Rightarrow> RawOverwrite list \<Rightarrow> int list \<Rightarrow> bool" where
  "channelOverwriteHasPermission guildID id' overwrites permissions =
     (let overwrite = matched_overwrite guildID id' overwrites
      in list_all (overwrite_grants overwrite) permissions)"

section \<open>Permission aggregation\<close>

text \<open>
  A named permission is a key of the \<^verbatim>\<open>Permissions\<close> enum. The enum is declared in
  \<^verbatim>\<open>types/permission.ts\<close>, outside the handlers, so the table from names to numeric
  values is a parameter \<open>Permissions\<close> of every definition that reads it.
\<close>

type_synonym Permission = string

text \<open>
  \<^verbatim>\<open>perms.reduce((bits, perm) => bits |= BigInt(Permissions[perm]), BigInt(0))\<close>, the
  aggregation of \<^verbatim>\<open>editChannel\<close> and \<^verbatim>\<open>createGuildChannel\<close>: \<^verbatim>\<open>|\<close> on BigInt operands.
\<close>

definition bigint_bits :: "(Permission \<Rightarrow> int) \<Rightarrow> Permission list \<Rightarrow> int" where
  "bigint_bits Permissions perms = foldl (\<lambda>bits perm. bits OR Permissions perm) 0 perms"



datatype Errors = MISSING_MANAGE_CHANNELS | MISSING_MANAGE_ROLES




section \<open>Channel edits\<close>

record Overwrite =
  ow_id :: snowflake
  ow_allow :: "Permission list"
  ow_deny :: "Permission list"

record ChannelEditOptions =
  name :: "string option"
  topic :: "string option"
  slowmode :: "nat option"
  parentID :: "snowflake option"
  userLimit :: "nat option"
  overwrites :: "Overwrite list option"

text \<open>
  An overwrite of the request body: \<^verbatim>\<open>allow\<close> and \<^verbatim>\<open>deny\<close> are the aggregated BigInt
  masks (the body carries their decimal rendering, \<^verbatim>\<open>.toString()\<close>).
\<close>

record PayloadOverwrite =
  po_id :: snowflake
  po_allow :: int
  po_deny :: int

text \<open>
  One call \<^verbatim>\<open>RequestManager.patch(endpoints.GUILD_CHANNEL(channelID), {...payload, reason})\<close>.
\<close>

record PatchRequest =
  patch_channelID :: snowflake
  patch_options :: ChannelEditOptions
  rate_limit_per_user :: "nat option"
  parent_id :: "snowflake option"
  user_limit :: "nat option"
  permission_overwrites :: "PayloadOverwrite list option"
  patch_reason :: "string option"

definition editChannelPayload ::
  "(Permission \<Rightarrow> int) \<Rightarrow> snowflake \<Rightarrow> ChannelEditOptions \<Rightarrow> string option \<Rightarrow> PatchRequest" where
  "editChannelPayload Permissions channelID' options reason =
     \<lparr>patch_channelID = channelID',
      patch_options = options,
      rate_limit_per_user = slowmode options,
      parent_id = parentID options,
      user_limit = userLimit options,
      permission_overwrites =
        map_option (map (\<lambda>overwrite.
            \<lparr>po_id = ow_id overwrite,
             po_allow = bigint_bits Permissions (ow_allow overwrite),
             po_deny = bigint_bits Permissions (ow_deny overwrite)\<rparr>))
          (overwrites options),
      patch_reason = reason\<rparr>"

text \<open>
  JavaScript truthiness of an optional string: \<^verbatim>\<open>undefined\<close> and the empty string are
  falsy.
\<close>

definition truthy :: "string option \<Rightarrow> bool" where
  "truthy v = (case v of None \<Rightarrow> False | Some str \<Rightarrow> str \<noteq> [])"

section \<open>Mutation scheduler\<close>

record EditChannelItem =
  item_channelID :: snowflake
  item_options :: ChannelEditOptions

record EditChannelRequest =
  amount :: nat
  timestamp :: nat
  channelID :: snowflake
  items :: "EditChannelItem list"

text \<open>
  The module state and the effects of the handlers on their collaborators:
  \<^item> \<open>editChannelNameTopicQueue\<close>: the \<^verbatim>\<open>Map\<close>, as an association list in insertion
    order (the order in which \<^verbatim>\<open>forEach\<close> visits it);
  \<^item> \<open>editChannelProcessing\<close>: the drain-cycle flag;
  \<^item> \<open>transport\<close>: the \<^verbatim>\<open>RequestManager.patch\<close> calls issued so far, oldest first;
  \<^item> \<open>timers\<close>: the due times of the pending \<^verbatim>\<open>setTimeout\<close> callbacks;
  \<^item> \<open>resubmitted\<close>: the calls \<^verbatim>\<open>editChannel(details.channelID, details.options)\<close>
    made by the drain pass. \<^verbatim>\<open>editChannel\<close> is \<^verbatim>\<open>async\<close> and its first statement awaits
    the capability lookup, so the body of such a call runs only after the drain pass and
    its caller have returned; until then the call is pending here.
\<close>

record Scheduler =
  editChannelNameTopicQueue :: "(snowflake \<times> EditChannelRequest) list"
  editChannelProcessing :: bool
  transport :: "PatchRequest list"
  timers :: "nat list"
  resubmitted :: "EditChannelItem list"

definition initial :: Scheduler where
  "initial = \<lparr>editChannelNameTopicQueue = [], editChannelProcessing = False,
              transport = [], timers = [], resubmitted = []\<rparr>"

text \<open>
  The callback of \<^verbatim>\<open>editChannelNameTopicQueue.forEach\<close>, run on the entry stored under
  \<open>key\<close>. The request object is mutated in place, which updates the entry under its key;
  \<^verbatim>\<open>delete\<close> is by the request's own \<^verbatim>\<open>channelID\<close> field.
\<close>

definition drainRequest :: "nat \<Rightarrow> snowflake \<Rightarrow> EditChannelRequest \<Rightarrow> Scheduler \<Rightarrow> Scheduler" where
  "drainRequest now key request s =
     (if now > timestamp request then s
      else case items request of
        [] \<Rightarrow> s\<lparr>editChannelNameTopicQueue :=
                  AList.delete (channelID request) (editChannelNameTopicQueue s)\<rparr>
      | details # rest \<Rightarrow>
          (case rest of
             [] \<Rightarrow>
               s\<lparr>editChannelNameTopicQueue :=
                    AList.update key (request\<lparr>amount := 0, items := []\<rparr>)
                      (editChannelNameTopicQueue s),
                  resubmitted := resubmitted s @ [details]\<rparr>
           | secondDetails # rest' \<Rightarrow>
               s\<lparr>editChannelNameTopicQueue :=
                    AList.update key (request\<lparr>amount := 0, items := rest'\<rparr>)
                      (editChannelNameTopicQueue s),
                  resubmitted := resubmitted s @ [details, secondDetails]\<rparr>))"

text \<open>
  \<^verbatim>\<open>Map.prototype.forEach\<close> over the keys present when the pass starts, in insertion
  order; an entry deleted before its turn is not visited.
\<close>

fun forEachRequest :: "nat \<Rightarrow> snowflake list \<Rightarrow> Scheduler \<Rightarrow> Scheduler" where
  "forEachRequest now [] s = s"
| "forEachRequest now (key # keys) s =
     (case map_of (editChannelNameTopicQueue s) key of
        None \<Rightarrow> forEachRequest now keys s
      | Some request \<Rightarrow> forEachRequest now keys (drainRequest now key request s))"

text \<open>
  The drain pass. \<open>now\<close> is the value of \<^verbatim>\<open>Date.now()\<close>; the timer it sets is due
  600000 ms later.
\<close>

definition processEditChannelQueue :: "nat \<Rightarrow> Scheduler \<Rightarrow> Scheduler" where
  "processEditChannelQueue now s =
     (if \<not> editChannelProcessing s then s
      else
        let s' = forEachRequest now (map fst (editChannelNameTopicQueue s)) s
        in if editChannelNameTopicQueue s' \<noteq> []
           then s'\<lparr>timers := timers s' @ [now + 600000]\<rparr>
           else s'\<lparr>editChannelProcessing := False\<rparr>)"

text \<open>
  The tail of \<^verbatim>\<open>editChannel\<close>: build the payload and hand it to
  \<^verbatim>\<open>RequestManager.patch\<close>. The call returns the transport's answer, \<open>Some\<close> of the
  request here.
\<close>

definition forward ::
  "(Permission \<Rightarrow> int) \<Rightarrow> snowflake \<Rightarrow> ChannelEditOptions \<Rightarrow> string option \<Rightarrow> Scheduler \<Rightarrow>
     (Errors + PatchRequest option) \<times> Scheduler" where
  "forward Permissions channelID' options reason s =
     (let payload = editChannelPayload Permissions channelID' options reason
      in (Inr (Some payload), s\<lparr>transport := transport s @ [payload]\<rparr>))"

text \<open>
  \<^verbatim>\<open>request.items.push({ channelID, options })\<close> on the request stored under the
  channel's id.
\<close>

definition enqueue ::
  "snowflake \<Rightarrow> ChannelEditOptions \<Rightarrow> EditChannelRequest \<Rightarrow> Scheduler \<Rightarrow> Scheduler" where
  "enqueue channelID' options request s =
     s\<lparr>editChannelNameTopicQueue :=
          AList.update channelID'
            (request\<lparr>items := items request @
                [\<lparr>item_channelID = channelID', item_options = options\<rparr>]\<rparr>)
            (editChannelNameTopicQueue s)\<rparr>"

text \<open>
  \<^verbatim>\<open>editChannel\<close>. \<open>botHasChannelPermissions\<close> is the answer of the capability lookup
  for \<^verbatim>\<open>[Permissions.MANAGE_CHANNELS]\<close> in a channel, \<open>now\<close> the value of
  \<^verbatim>\<open>Date.now()\<close>. The only \<^verbatim>\<open>await\<close> of the function is the lookup in its first
  statement; \<open>s\<close> is the state when the lookup has answered, and the rest of the body
  runs without interruption up to the patch call. The result is \<open>Inl\<close> of the error
  thrown, \<open>Inr None\<close> for a call that returns \<^verbatim>\<open>undefined\<close>, \<open>Inr (Some request)\<close> for
  a call that returns the answer of the patch request.
\<close>

definition editChannel ::
  "(snowflake \<Rightarrow> bool) \<Rightarrow> (Permission \<Rightarrow> int) \<Rightarrow> nat \<Rightarrow> snowflake \<Rightarrow> ChannelEditOptions \<Rightarrow>
     string option \<Rightarrow> Scheduler \<Rightarrow> (Errors + PatchRequest option) \<times> Scheduler" where
  "editChannel botHasChannelPermissions Permissions now channelID' options reason s =
     (if \<not> botHasChannelPermissions channelID' then (Inl MISSING_MANAGE_CHANNELS, s)
      else if truthy (name options) \<or> truthy (topic options) then
        (case map_of (editChannelNameTopicQueue s) channelID' of
           None \<Rightarrow>
             forward Permissions channelID' options reason
               (s\<lparr>editChannelNameTopicQueue :=
                    AList.update channelID'
                      \<lparr>amount = 1, timestamp = now + 600000, channelID = channelID', items = []\<rparr>
                      (editChannelNameTopicQueue s)\<rparr>)
         | Some request \<Rightarrow>
             if amount request = 1 then
               forward Permissions channelID' options reason
                 (s\<lparr>editChannelNameTopicQueue :=
                      AList.update channelID'
                        (request\<lparr>amount := 2, timestamp := now + 600000\<rparr>)
                        (editChannelNameTopicQueue s)\<rparr>)
             else
               let s' = enqueue channelID' options request s
               in if editChannelProcessing s' then (Inr None, s')
                  else (Inr None, processEditChannelQueue now (s'\<lparr>editChannelProcessing := True\<rparr>)))
      else forward Permissions channelID' options reason s)"

text \<open>
  The body of the oldest pending re-submission runs: \<^verbatim>\<open>editChannel\<close> without a reason.
  Nobody holds its promise, so its result, a rejection included, is dropped.
\<close>

definition resume ::
  "(snowflake \<Rightarrow> bool) \<Rightarrow> (Permission \<Rightarrow> int) \<Rightarrow> nat \<Rightarrow> Scheduler \<Rightarrow> Scheduler" where
  "resume botHasChannelPermissions Permissions now s =
     (case resubmitted s of
        [] \<Rightarrow> s
      | details # pending \<Rightarrow>
          snd (editChannel botHasChannelPermissions Permissions now
                 (item_channelID details) (item_options details) None
                 (s\<lparr>resubmitted := pending\<rparr>)))"

text \<open>
  A drain tick: the oldest timer fires, not before it is due, and runs the drain pass.
\<close>

definition drainTick :: "nat \<Rightarrow> Scheduler \<Rightarrow> Scheduler" where
  "drainTick now s =
     (case timers s of
        [] \<Rightarrow> s
      | due # later \<Rightarrow>
          if now < due then s else processEditChannelQueue now (s\<lparr>timers := later\<rparr>))"

section \<open>Reachable states\<close>

text \<open>
  The states the module can be in: the initial one and every state that a call of
  \<^verbatim>\<open>editChannel\<close>, the body of a pending re-submission or a drain tick leads to, with
  any answer of the capability lookup, any permission table and any clock value.
\<close>

inductive reachable :: "Scheduler \<Rightarrow> bool" where
  start: "reachable initial"
| call: "reachable s \<Longrightarrow>
     reachable (snd (editChannel botHasChannelPermissions Permissions now channelID' options reason s))"
| continue: "reachable s \<Longrightarrow> reachable (resume botHasChannelPermissions Permissions now s)"
| tick: "reachable s \<Longrightarrow> reachable (drainTick now s)"

text \<open>
  \<^verbatim>\<open>options.name || options.topic\<close>, and the invariant of the reachable states: the keys of
  the mapping are distinct, every request is stored under its own \<^verbatim>\<open>channelID\<close>, a
  request with count 1 has an empty queue, and every queued or re-submitted edit has a
  truthy name or topic.
\<close>

definition throttled :: "ChannelEditOptions \<Rightarrow> bool" where
  "throttled options \<longleftrightarrow> truthy (name options) \<or> truthy (topic options)"

definition wellformed :: "Scheduler \<Rightarrow> bool" where
  "wellformed s \<longleftrightarrow>
     distinct (map fst (editChannelNameTopicQueue s)) \<and>
     (\<forall>(key, request) \<in> set (editChannelNameTopicQueue s).
        channelID request = key \<and>
        (amount request = 1 \<longrightarrow> items request = []) \<and>
        (\<forall>details \<in> set (items request). throttled (item_options details))) \<and>
     (\<forall>details \<in> set (resubmitted s). throttled (item_options details))"

section \<open>Example inputs\<close>

text \<open>
  Concrete collaborators and payloads for the evaluated runs below: a capability lookup
  that grants the required capability everywhere, an edit that sets only the name and an
  edit that sets only the slow mode.
\<close>

definition granted :: "snowflake \<Rightarrow> bool" where
  "granted channelID' = True"

definition rename :: "string \<Rightarrow> ChannelEditOptions" where
  "rename str = \<lparr>name = Some str, topic = None, slowmode = None, parentID = None,
                  userLimit = None, overwrites = None\<rparr>"

definition slow :: "nat \<Rightarrow> ChannelEditOptions" where
  "slow n = \<lparr>name = None, topic = None, slowmode = Some n, parentID = None,
              userLimit = None, overwrites = None\<rparr>"

text \<open>
  Modelled from the spec: the \<^verbatim>\<open>Permissions\<close> table, whose declaration
  (\<^verbatim>\<open>types/permission.ts\<close>) is not among the sources. The spec describes a permission
  bitmask as an unsigned integer-like value that must support widths beyond 32 bits, each
  bit denoting one capability; this table has a capability at bit 32.
\<close>

definition wide_table :: "Permission \<Rightarrow> int" where
  "wide_table perm = (if perm = ''REQUEST_TO_SPEAK'' then 4294967296 else 1)"


text \<open>
  Three scheduler states used below. In \<open>two_open\<close> channel \<open>b\<close> has had one throttled
  edit and channel \<open>a\<close> two, all at time 0, and no drain cycle runs. In \<open>three_queued\<close>
  channel \<open>a\<close> has had five throttled edits at time 0; the third started the drain cycle.
  In \<open>late_b\<close> channel \<open>a\<close> has had three throttled edits at time 0 and channel \<open>b\<close> one
  at time 5.
\<close>

definition two_open :: Scheduler where
  "two_open =
     \<lparr>editChannelNameTopicQueue =
        [(''b'', \<lparr>amount = 1, timestamp = 600000, channelID = ''b'', items = []\<rparr>),
         (''a'', \<lparr>amount = 2, timestamp = 600000, channelID = ''a'', items = []\<rparr>)],
      editChannelProcessing = False,
      transport = [editChannelPayload wide_table ''b'' (rename ''b1'') None,
                   editChannelPayload wide_table ''a'' (rename ''a1'') None,
                   editChannelPayload wide_table ''a'' (rename ''a2'') None],
      timers = [], resubmitted = []\<rparr>"

definition three_queued :: Scheduler where
  "three_queued =
     \<lparr>editChannelNameTopicQueue =
        [(''a'', \<lparr>amount = 0, timestamp = 600000, channelID = ''a'',
                 items = [\<lparr>item_channelID = ''a'', item_options = rename ''a3''\<rparr>,
                          \<lparr>item_channelID = ''a'', item_options = rename ''a4''\<rparr>,
                          \<lparr>item_channelID = ''a'', item_options = rename ''a5''\<rparr>]\<rparr>)],
      editChannelProcessing = True,
      transport = [editChannelPayload wide_table ''a'' (rename ''a1'') None,
                   editChannelPayload wide_table ''a'' (rename ''a2'') None],
      timers = [600000], resubmitted = []\<rparr>"

definition late_b :: Scheduler where
  "late_b =
     \<lparr>editChannelNameTopicQueue =
        [(''a'', \<lparr>amount = 0, timestamp = 600000, channelID = ''a'',
                 items = [\<lparr>item_channelID = ''a'', item_options = rename ''a3''\<rparr>]\<rparr>),
         (''b'', \<lparr>amount = 1, timestamp = 600005, channelID = ''b'', items = []\<rparr>)],
      editChannelProcessing = True,
      transport = [editChannelPayload wide_table ''a'' (rename ''a1'') None,
                   editChannelPayload wide_table ''a'' (rename ''a2'') None,
                   editChannelPayload wide_table ''b'' (rename ''b1'') None],
      timers = [600000], resubmitted = []\<rparr>"

section \<open>Properties of the permission resolver\<close>

lemma overwrite_grants_bit:
  "overwrite_grants (Some ow) (2 ^ k) \<longleftrightarrow> bit (raw_allow ow) k \<and> \<not> bit (raw_deny ow) k"
  by (auto simp: overwrite_grants_def and_exp_eq_0_iff_not_bit)

lemma overwrite_grants_None: "\<not> overwrite_grants None perm"
  by (simp add: overwrite_grants_def)

lemma channelOverwriteHasPermission_bits:
  "channelOverwriteHasPermission guildID id' ows (map (\<lambda>k. 2 ^ k) ks) \<longleftrightarrow>
     (\<forall>k \<in> set ks. overwrite_grants (matched_overwrite guildID id' ows) (2 ^ k))"
  by (simp add: channelOverwriteHasPermission_def list_all_iff)

lemma matched_overwrite_principal:
  assumes "n < length ows" and "raw_id (ows ! n) = id'"
    and "\<forall>j<n. raw_id (ows ! j) \<noteq> id'"
  shows "matched_overwrite guildID id' ows = Some (ows ! n)"
proof -
  have "find (\<lambda>perm. raw_id perm = id') ows = Some (ows ! n)"
    using assms by (auto simp: find_Some_iff)
  then show ?thesis by (simp add: matched_overwrite_def)
qed

lemma matched_overwrite_root:
  assumes "\<forall>j<length ows. raw_id (ows ! j) \<noteq> id'"
    and "n < length ows" and "raw_id (ows ! n) = guildID"
    and "\<forall>j<n. raw_id (ows ! j) \<noteq> guildID"
  shows "matched_overwrite guildID id' ows = Some (ows ! n)"
proof -
  have "find (\<lambda>perm. raw_id perm = id') ows = None"
    using assms(1) by (auto simp: find_None_iff in_set_conv_nth)
  moreover have "find (\<lambda>perm. raw_id perm = guildID) ows = Some (ows ! n)"
    using assms(2-4) by (auto simp: find_Some_iff)
  ultimately show ?thesis by (simp add: matched_overwrite_def)
qed

lemma matched_overwrite_none:
  assumes "\<forall>j<length ows. raw_id (ows ! j) \<noteq> id' \<and> raw_id (ows ! j) \<noteq> guildID"
  shows "matched_overwrite guildID id' ows = None"
proof -
  have "find (\<lambda>perm. raw_id perm = id') ows = None"
    using assms by (auto simp: find_None_iff in_set_conv_nth)
  moreover have "find (\<lambda>perm. raw_id perm = guildID) ows = None"
    using assms by (auto simp: find_None_iff in_set_conv_nth)
  ultimately show ?thesis by (simp add: matched_overwrite_def)
qed

lemma first_index:
  assumes "\<exists>j<length xs. P (xs ! j)"
  shows "\<exists>n<length xs. P (xs ! n) \<and> (\<forall>j<n. \<not> P (xs ! j))"
proof -
  from assms obtain j where j: "j < length xs" "P (xs ! j)" by blast
  define n where "n = (LEAST m. m < length xs \<and> P (xs ! m))"
  have n: "n < length xs \<and> P (xs ! n)"
    unfolding n_def by (rule LeastI [of _ j]) (use j in simp)
  have "\<not> P (xs ! m)" if "m < n" for m
  proof
    assume "P (xs ! m)"
    with that n have "m < length xs \<and> P (xs ! m)" by simp
    then have "n \<le> m" unfolding n_def by (rule Least_le)
    with that show False by simp
  qed
  with n show ?thesis by blast
qed

lemma channelOverwriteHasPermission_at:
  assumes "n < length ows"
    and "raw_id (ows ! n) = id' \<and> (\<forall>j<n. raw_id (ows ! j) \<noteq> id')
         \<or> (\<forall>j<length ows. raw_id (ows ! j) \<noteq> id') \<and>
           raw_id (ows ! n) = guildID \<and> (\<forall>j<n. raw_id (ows ! j) \<noteq> guildID)"
  shows "channelOverwriteHasPermission guildID id' ows (map (\<lambda>k. 2 ^ k) ks) \<longleftrightarrow>
           (\<forall>k \<in> set ks. bit (raw_allow (ows ! n)) k \<and> \<not> bit (raw_deny (ows ! n)) k)"
proof -
  from assms have "matched_overwrite guildID id' ows = Some (ows ! n)"
    by (auto intro: matched_overwrite_principal matched_overwrite_root)
  then show ?thesis
    by (simp add: channelOverwriteHasPermission_bits overwrite_grants_bit)
qed

lemma channelOverwriteHasPermission_unmatched:
  assumes "ks \<noteq> []"
    and "\<forall>j<length ows. raw_id (ows ! j) \<noteq> id' \<and> raw_id (ows ! j) \<noteq> guildID"
  shows "\<not> channelOverwriteHasPermission guildID id' ows (map (\<lambda>k. 2 ^ k) ks)"
proof -
  from assms(1) obtain k0 where "k0 \<in> set ks" by (cases ks) auto
  moreover from assms(2) have "matched_overwrite guildID id' ows = None"
    by (rule matched_overwrite_none)
  ultimately show ?thesis
    by (auto simp: channelOverwriteHasPermission_bits overwrite_grants_None)
qed

text \<open>
  Claim C1. The required permissions are single bits, given by a non-empty list \<open>ks\<close> of
  bit positions. The matched entry is the first entry of the list whose id is the
  principal id or, when no entry has the principal id, the first entry whose id is the
  root id. The resolver returns true exactly when there is a matched entry and every
  required bit is set in its allow mask and clear in its deny mask. When no entry has
  either id the result is false, and a required bit that is set in the deny mask of the
  matched entry makes the result false whatever its allow mask holds.
\<close>

theorem channelOverwriteHasPermission_iff:
  assumes "ks \<noteq> []"
  shows "(channelOverwriteHasPermission guildID id' ows (map (\<lambda>k. 2 ^ k) ks) \<longleftrightarrow>
           (\<exists>n<length ows.
              (raw_id (ows ! n) = id' \<and> (\<forall>j<n. raw_id (ows ! j) \<noteq> id')
               \<or> (\<forall>j<length ows. raw_id (ows ! j) \<noteq> id') \<and>
                 raw_id (ows ! n) = guildID \<and> (\<forall>j<n. raw_id (ows ! j) \<noteq> guildID))
              \<and> (\<forall>k \<in> set ks. bit (raw_allow (ows ! n)) k \<and> \<not> bit (raw_deny (ows ! n)) k)))
       \<and> ((\<forall>j<length ows. raw_id (ows ! j) \<noteq> id' \<and> raw_id (ows ! j) \<noteq> guildID) \<longrightarrow>
            \<not> channelOverwriteHasPermission guildID id' ows (map (\<lambda>k. 2 ^ k) ks))
       \<and> (\<forall>n k. n < length ows \<and>
              (raw_id (ows ! n) = id' \<and> (\<forall>j<n. raw_id (ows ! j) \<noteq> id')
               \<or> (\<forall>j<length ows. raw_id (ows ! j) \<noteq> id') \<and>
                 raw_id (ows ! n) = guildID \<and> (\<forall>j<n. raw_id (ows ! j) \<noteq> guildID)) \<and>
              k \<in> set ks \<and> bit (raw_deny (ows ! n)) k \<longrightarrow>
            \<not> channelOverwriteHasPermission guildID id' ows (map (\<lambda>k. 2 ^ k) ks))"
proof (intro conjI)
  let ?res = "channelOverwriteHasPermission guildID id' ows (map (\<lambda>k. 2 ^ k) ks)"
  let ?at = "\<lambda>n. raw_id (ows ! n) = id' \<and> (\<forall>j<n. raw_id (ows ! j) \<noteq> id')
               \<or> (\<forall>j<length ows. raw_id (ows ! j) \<noteq> id') \<and>
                 raw_id (ows ! n) = guildID \<and> (\<forall>j<n. raw_id (ows ! j) \<noteq> guildID)"
  let ?bits = "\<lambda>n. \<forall>k \<in> set ks. bit (raw_allow (ows ! n)) k \<and> \<not> bit (raw_deny (ows ! n)) k"
  show "?res \<longleftrightarrow> (\<exists>n<length ows. ?at n \<and> ?bits n)"
  proof
    assume res: ?res
    have "\<exists>n<length ows. ?at n"
    proof (cases "\<exists>j<length ows. raw_id (ows ! j) = id'")
      case True
      from first_index [of ows "\<lambda>ow. raw_id ow = id'", OF True] show ?thesis by blast
    next
      case noprincipal: False
      show ?thesis
      proof (cases "\<exists>j<length ows. raw_id (ows ! j) = guildID")
        case True
        from first_index [of ows "\<lambda>ow. raw_id ow = guildID", OF True] noprincipal
        show ?thesis by blast
      next
        case False
        with noprincipal
        have "\<forall>j<length ows. raw_id (ows ! j) \<noteq> id' \<and> raw_id (ows ! j) \<noteq> guildID"
          by blast
        with assms have "\<not> ?res" by (rule channelOverwriteHasPermission_unmatched)
        with res show ?thesis by simp
      qed
    qed
    then obtain n where n: "n < length ows" "?at n" by blast
    with res have "?bits n" by (simp only: channelOverwriteHasPermission_at [OF n])
    with n show "\<exists>n<length ows. ?at n \<and> ?bits n" by blast
  next
    assume "\<exists>n<length ows. ?at n \<and> ?bits n"
    then obtain n where n: "n < length ows" "?at n" and b: "?bits n" by blast
    from b show ?res by (simp only: channelOverwriteHasPermission_at [OF n])
  qed
  show "(\<forall>j<length ows. raw_id (ows ! j) \<noteq> id' \<and> raw_id (ows ! j) \<noteq> guildID) \<longrightarrow> \<not> ?res"
    using assms by (auto dest: channelOverwriteHasPermission_unmatched)
  show "\<forall>n k. n < length ows \<and> ?at n \<and> k \<in> set ks \<and> bit (raw_deny (ows ! n)) k \<longrightarrow> \<not> ?res"
  proof (intro allI impI)
    fix n k
    assume a: "n < length ows \<and> ?at n \<and> k \<in> set ks \<and> bit (raw_deny (ows ! n)) k"
    then have n: "n < length ows" "?at n" by blast+
    from a show "\<not> ?res" by (auto simp only: channelOverwriteHasPermission_at [OF n])
  qed
qed

text \<open>
  Two evaluated runs. In the first the principal's entry allows bits 0 and 1 and the
  root's entry, which comes first in the list, denies them: the result is true. In the
  second the root's entry allows bits 0 to 2 and the principal's entry allows bits 0 and 1
  but denies bit 1: the result is false.
\<close>

theorem channelOverwriteHasPermission_iff_witness:
  "channelOverwriteHasPermission ''g'' ''u''
       [\<lparr>raw_id = ''g'', raw_allow = 0, raw_deny = 3\<rparr>,
        \<lparr>raw_id = ''u'', raw_allow = 3, raw_deny = 0\<rparr>] (map (\<lambda>k. 2 ^ k) [0, 1])
   \<and> \<not> channelOverwriteHasPermission ''g'' ''u''
       [\<lparr>raw_id = ''g'', raw_allow = 7, raw_deny = 0\<rparr>,
        \<lparr>raw_id = ''u'', raw_allow = 3, raw_deny = 2\<rparr>] (map (\<lambda>k. 2 ^ k) [0, 1])"
proof
  have ne: "[0, 1 :: nat] \<noteq> []" by simp
  let ?ows = "[\<lparr>raw_id = ''g'', raw_allow = 0, raw_deny = 3\<rparr>,
               \<lparr>raw_id = ''u'', raw_allow = 3, raw_deny = 0\<rparr>]"
  have "\<exists>n<length ?ows.
          (raw_id (?ows ! n) = ''u'' \<and> (\<forall>j<n. raw_id (?ows ! j) \<noteq> ''u'')
           \<or> (\<forall>j<length ?ows. raw_id (?ows ! j) \<noteq> ''u'') \<and>
             raw_id (?ows ! n) = ''g'' \<and> (\<forall>j<n. raw_id (?ows ! j) \<noteq> ''g''))
          \<and> (\<forall>k \<in> set [0, 1 :: nat].
                bit (raw_allow (?ows ! n)) k \<and> \<not> bit (raw_deny (?ows ! n)) k)"
    by (rule exI [of _ 1]) (simp add: less_Suc_eq)
  with channelOverwriteHasPermission_iff [OF ne, of "''g''" "''u''" ?ows]
  show "channelOverwriteHasPermission ''g'' ''u'' ?ows (map (\<lambda>k. 2 ^ k) [0, 1])"
    by blast
next
  have ne: "[0, 1 :: nat] \<noteq> []" by simp
  let ?ows = "[\<lparr>raw_id = ''g'', raw_allow = 7, raw_deny = 0\<rparr>,
               \<lparr>raw_id = ''u'', raw_allow = 3, raw_deny = 2\<rparr>]"
  have "1 < length ?ows \<and>
        (raw_id (?ows ! 1) = ''u'' \<and> (\<forall>j<1. raw_id (?ows ! j) \<noteq> ''u'')
         \<or> (\<forall>j<length ?ows. raw_id (?ows ! j) \<noteq> ''u'') \<and>
           raw_id (?ows ! 1) = ''g'' \<and> (\<forall>j<1. raw_id (?ows ! j) \<noteq> ''g'')) \<and>
        (1::nat) \<in> set [0, 1 :: nat] \<and> bit (raw_deny (?ows ! 1)) (1::nat)"
    by simp
  with channelOverwriteHasPermission_iff [OF ne, of "''g''" "''u''" ?ows]
  show "\<not> channelOverwriteHasPermission ''g'' ''u'' ?ows (map (\<lambda>k. 2 ^ k) [0, 1])"
    by blast
qed

text \<open>
  Claim C9. With an empty list of required permissions the resolver returns true for
  every overwrite list, principal id and root id, whether or not an entry matches:
  \<^verbatim>\<open>[].every(...)\<close> is true.
\<close>

theorem channelOverwriteHasPermission_empty:
  "channelOverwriteHasPermission guildID id' ows []"
  by (simp add: channelOverwriteHasPermission_def)

section \<open>Properties of the edit entry point\<close>

lemma editChannel_falsy:
  assumes "botHasChannelPermissions channelID'"
    and "\<not> truthy (name options)" and "\<not> truthy (topic options)"
  shows "editChannel botHasChannelPermissions Permissions now channelID' options reason s =
           (Inr (Some (editChannelPayload Permissions channelID' options reason)),
            s\<lparr>transport := transport s @ [editChannelPayload Permissions channelID' options reason]\<rparr>)"
  using assms by (simp add: editChannel_def forward_def Let_def)

text \<open>
  Claim C5. When the capability lookup denies \<^verbatim>\<open>MANAGE_CHANNELS\<close>, the call is rejected
  with \<^verbatim>\<open>Errors.MISSING_MANAGE_CHANNELS\<close> and the whole state is the one before the
  call: no request reached the transport, and the mapping, the drain-cycle flag, the
  timers and the pending re-submissions are untouched.
\<close>

theorem editChannel_missing_permission:
  assumes "\<not> botHasChannelPermissions channelID'"
  shows "editChannel botHasChannelPermissions Permissions now channelID' options reason s =
           (Inl MISSING_MANAGE_CHANNELS, s)"
  using assms by (simp add: editChannel_def)

theorem editChannel_missing_permission_witness:
  "editChannel (\<lambda>c. c \<noteq> ''c'') wide_table 5 ''c'' (rename ''n'') None initial =
     (Inl MISSING_MANAGE_CHANNELS, initial)"
  using editChannel_missing_permission [of "\<lambda>c. c \<noteq> ''c''" "''c''" wide_table 5 "rename ''n''" None initial]
  by simp

text \<open>
  Claim C7. An authorised edit whose options carry neither a name nor a topic is
  handed to the transport by the call itself, whatever record the mapping holds for the
  channel: the result and the new state do not depend on the mapping, and the new state
  differs from the old one only by the request appended to the transport.
\<close>

theorem editChannel_unthrottled_forwarded:
  assumes "botHasChannelPermissions channelID'"
    and "name options = None" and "topic options = None"
  shows "editChannel botHasChannelPermissions Permissions now channelID' options reason s =
           (Inr (Some (editChannelPayload Permissions channelID' options reason)),
            s\<lparr>transport := transport s @ [editChannelPayload Permissions channelID' options reason]\<rparr>)"
  using assms by (intro editChannel_falsy) (simp_all add: truthy_def)

theorem editChannel_unthrottled_forwarded_witness:
  "editChannel granted wide_table 7 ''c'' (slow 5) None
     \<lparr>editChannelNameTopicQueue =
        [(''c'', \<lparr>amount = 2, timestamp = 600000, channelID = ''c'',
                 items = [\<lparr>item_channelID = ''c'', item_options = rename ''x''\<rparr>]\<rparr>)],
      editChannelProcessing = True, transport = [], timers = [600000], resubmitted = []\<rparr> =
   (Inr (Some (editChannelPayload wide_table ''c'' (slow 5) None)),
     \<lparr>editChannelNameTopicQueue =
        [(''c'', \<lparr>amount = 2, timestamp = 600000, channelID = ''c'',
                 items = [\<lparr>item_channelID = ''c'', item_options = rename ''x''\<rparr>]\<rparr>)],
      editChannelProcessing = True,
      transport = [editChannelPayload wide_table ''c'' (slow 5) None],
      timers = [600000], resubmitted = []\<rparr>)"
  using editChannel_unthrottled_forwarded [of granted "''c''" "slow 5" wide_table 7 None
    "\<lparr>editChannelNameTopicQueue =
        [(''c'', \<lparr>amount = 2, timestamp = 600000, channelID = ''c'',
                 items = [\<lparr>item_channelID = ''c'', item_options = rename ''x''\<rparr>]\<rparr>)],
      editChannelProcessing = True, transport = [], timers = [600000], resubmitted = []\<rparr>"]
  by (simp add: granted_def slow_def)

text \<open>
  Claim C10. The throttled-field test is on truthiness: an authorised edit that sets the
  name or the topic to the empty string, and sets neither to a non-empty string, is
  forwarded by the call itself and leaves the mapping and the drain-cycle flag as they
  were, in every state of the scheduler; the evaluated run after the theorem has the
  channel's record at count 2.
\<close>

theorem editChannel_empty_string_bypasses:
  assumes "botHasChannelPermissions channelID'"
    and "name options = Some [] \<or> topic options = Some []"
    and "name options = None \<or> name options = Some []"
    and "topic options = None \<or> topic options = Some []"
  shows "editChannel botHasChannelPermissions Permissions now channelID' options reason s =
           (Inr (Some (editChannelPayload Permissions channelID' options reason)),
            s\<lparr>transport := transport s @ [editChannelPayload Permissions channelID' options reason]\<rparr>)"
  using assms(1,3,4) by (intro editChannel_falsy) (auto simp: truthy_def)

theorem editChannel_empty_string_bypasses_witness:
  "editChannel granted wide_table 7 ''c'' (rename []) None
     \<lparr>editChannelNameTopicQueue =
        [(''c'', \<lparr>amount = 2, timestamp = 600000, channelID = ''c'', items = []\<rparr>)],
      editChannelProcessing = False, transport = [], timers = [], resubmitted = []\<rparr> =
   (Inr (Some (editChannelPayload wide_table ''c'' (rename []) None)),
     \<lparr>editChannelNameTopicQueue =
        [(''c'', \<lparr>amount = 2, timestamp = 600000, channelID = ''c'', items = []\<rparr>)],
      editChannelProcessing = False,
      transport = [editChannelPayload wide_table ''c'' (rename []) None],
      timers = [], resubmitted = []\<rparr>)"
  using editChannel_empty_string_bypasses [of granted "''c''" "rename []" wide_table 7 None
    "\<lparr>editChannelNameTopicQueue =
        [(''c'', \<lparr>amount = 2, timestamp = 600000, channelID = ''c'', items = []\<rparr>)],
      editChannelProcessing = False, transport = [], timers = [], resubmitted = []\<rparr>"]
  by (simp add: granted_def rename_def)

section \<open>Properties of the mutation scheduler\<close>

lemma forEachRequest_transport [simp]:
  "transport (forEachRequest now keys s) = transport s"
  by (induction keys arbitrary: s) (auto simp: drainRequest_def split: option.splits list.splits)

lemma processEditChannelQueue_transport [simp]:
  "transport (processEditChannelQueue now s) = transport s"
  by (simp add: processEditChannelQueue_def Let_def)

lemma map_of_enqueue:
  "map_of (editChannelNameTopicQueue (enqueue channelID' options request s)) channelID' =
     Some (request\<lparr>items := items request @
             [\<lparr>item_channelID = channelID', item_options = options\<rparr>]\<rparr>)"
  by (simp add: enqueue_def AList.update_conv')

text \<open>The three branches of the throttled path of \<^verbatim>\<open>editChannel\<close>.\<close>

lemma editChannel_idle:
  assumes "botHasChannelPermissions channelID'"
    and "truthy (name options) \<or> truthy (topic options)"
    and "map_of (editChannelNameTopicQueue s) channelID' = None"
  shows "editChannel botHasChannelPermissions Permissions now channelID' options reason s =
     (Inr (Some (editChannelPayload Permissions channelID' options reason)),
      s\<lparr>editChannelNameTopicQueue :=
           AList.update channelID'
             \<lparr>amount = 1, timestamp = now + 600000, channelID = channelID', items = []\<rparr>
             (editChannelNameTopicQueue s),
         transport := transport s @ [editChannelPayload Permissions channelID' options reason]\<rparr>)"
  using assms by (auto simp add: editChannel_def forward_def Let_def)

lemma editChannel_open1:
  assumes "botHasChannelPermissions channelID'"
    and "truthy (name options) \<or> truthy (topic options)"
    and "map_of (editChannelNameTopicQueue s) channelID' = Some request"
    and "amount request = 1"
  shows "editChannel botHasChannelPermissions Permissions now channelID' options reason s =
     (Inr (Some (editChannelPayload Permissions channelID' options reason)),
      s\<lparr>editChannelNameTopicQueue :=
           AList.update channelID' (request\<lparr>amount := 2, timestamp := now + 600000\<rparr>)
             (editChannelNameTopicQueue s),
         transport := transport s @ [editChannelPayload Permissions channelID' options reason]\<rparr>)"
  using assms by (auto simp add: editChannel_def forward_def Let_def)

lemma editChannel_open2:
  assumes "botHasChannelPermissions channelID'"
    and "truthy (name options) \<or> truthy (topic options)"
    and "map_of (editChannelNameTopicQueue s) channelID' = Some request"
    and "amount request \<noteq> 1"
  shows "editChannel botHasChannelPermissions Permissions now channelID' options reason s =
     (Inr None,
      if editChannelProcessing s then enqueue channelID' options request s
      else processEditChannelQueue now
             ((enqueue channelID' options request s)\<lparr>editChannelProcessing := True\<rparr>))"
  using assms by (auto simp add: editChannel_def Let_def enqueue_def)

text \<open>
  Three throttled edits to a channel without a record, one call after the other: the
  results, the transport and the record after each call.
\<close>

lemma three_edits_trace:
  assumes "botHasChannelPermissions c"
    and "truthy (name o1) \<or> truthy (topic o1)"
    and "truthy (name o2) \<or> truthy (topic o2)"
    and "truthy (name o3) \<or> truthy (topic o3)"
    and "map_of (editChannelNameTopicQueue s0) c = None"
    and "editChannel botHasChannelPermissions Permissions t1 c o1 reason1 s0 = (res1, s1)"
    and "editChannel botHasChannelPermissions Permissions t2 c o2 reason2 s1 = (res2, s2)"
    and "editChannel botHasChannelPermissions Permissions t3 c o3 reason3 s2 = (res3, s3)"
  shows "res1 = Inr (Some (editChannelPayload Permissions c o1 reason1))
       \<and> transport s1 = transport s0 @ [editChannelPayload Permissions c o1 reason1]
       \<and> map_of (editChannelNameTopicQueue s1) c =
           Some \<lparr>amount = 1, timestamp = t1 + 600000, channelID = c, items = []\<rparr>
       \<and> res2 = Inr (Some (editChannelPayload Permissions c o2 reason2))
       \<and> transport s2 = transport s1 @ [editChannelPayload Permissions c o2 reason2]
       \<and> map_of (editChannelNameTopicQueue s2) c =
           Some \<lparr>amount = 2, timestamp = t2 + 600000, channelID = c, items = []\<rparr>
       \<and> res3 = Inr None
       \<and> transport s3 = transport s2
       \<and> map_of (editChannelNameTopicQueue
             (enqueue c o3 \<lparr>amount = 2, timestamp = t2 + 600000, channelID = c, items = []\<rparr> s2)) c =
           Some \<lparr>amount = 2, timestamp = t2 + 600000, channelID = c,
                 items = [\<lparr>item_channelID = c, item_options = o3\<rparr>]\<rparr>
       \<and> s3 = (if editChannelProcessing s0
               then enqueue c o3 \<lparr>amount = 2, timestamp = t2 + 600000, channelID = c, items = []\<rparr> s2
               else processEditChannelQueue t3
                      ((enqueue c o3 \<lparr>amount = 2, timestamp = t2 + 600000, channelID = c, items = []\<rparr> s2)
                         \<lparr>editChannelProcessing := True\<rparr>))"
proof -
  let ?r1 = "\<lparr>amount = 1, timestamp = t1 + 600000, channelID = c, items = []\<rparr>"
  let ?r2 = "\<lparr>amount = 2, timestamp = t2 + 600000, channelID = c, items = []\<rparr>"
  from editChannel_idle [where botHasChannelPermissions = botHasChannelPermissions and channelID' = c,
      OF assms(1,2,5), of Permissions t1 reason1] assms(6)
  have r1: "res1 = Inr (Some (editChannelPayload Permissions c o1 reason1))"
    and s1: "s1 = s0\<lparr>editChannelNameTopicQueue := AList.update c ?r1 (editChannelNameTopicQueue s0),
         transport := transport s0 @ [editChannelPayload Permissions c o1 reason1]\<rparr>"
    by simp_all
  have m1: "map_of (editChannelNameTopicQueue s1) c = Some ?r1"
    by (simp add: s1 AList.update_conv')
  have a1: "amount ?r1 = 1" by simp
  from editChannel_open1 [where botHasChannelPermissions = botHasChannelPermissions and channelID' = c,
      OF assms(1,3) m1 a1, of Permissions t2 reason2] assms(7)
  have r2: "res2 = Inr (Some (editChannelPayload Permissions c o2 reason2))"
    and s2: "s2 = s1\<lparr>editChannelNameTopicQueue := AList.update c ?r2 (editChannelNameTopicQueue s1),
         transport := transport s1 @ [editChannelPayload Permissions c o2 reason2]\<rparr>"
    by simp_all
  have m2: "map_of (editChannelNameTopicQueue s2) c = Some ?r2"
    by (simp add: s2 AList.update_conv')
  have a2: "amount ?r2 \<noteq> 1" by simp
  have f2: "editChannelProcessing s2 = editChannelProcessing s0"
    by (simp add: s2 s1)
  from editChannel_open2 [where botHasChannelPermissions = botHasChannelPermissions and channelID' = c,
      OF assms(1,4) m2 a2, of Permissions t3 reason3] assms(8)
  have r3: "res3 = Inr None"
    and s3: "s3 = (if editChannelProcessing s2 then enqueue c o3 ?r2 s2
      else processEditChannelQueue t3 ((enqueue c o3 ?r2 s2)\<lparr>editChannelProcessing := True\<rparr>))"
    by simp_all
  have t3: "transport s3 = transport s2"
    by (simp add: s3 enqueue_def)
  show ?thesis
    using r1 r2 r3 m1 m2 t3 s3 f2
    by (simp add: s1 s2 map_of_enqueue)
qed

text \<open>
  Every reachable state satisfies the invariant.
\<close>

lemma set_update_subset: "set (AList.update k v al) \<subseteq> insert (k, v) (set al)"
  by (induction al) auto

lemma set_delete_subset: "set (AList.delete k al) \<subseteq> set al"
  by (auto simp: AList.delete_eq)

lemma wellformedI:
  assumes "distinct (map fst (editChannelNameTopicQueue s))"
    and "\<And>key request. (key, request) \<in> set (editChannelNameTopicQueue s) \<Longrightarrow>
           channelID request = key \<and>
           (amount request = 1 \<longrightarrow> items request = []) \<and>
           (\<forall>details \<in> set (items request). throttled (item_options details))"
    and "\<And>details. details \<in> set (resubmitted s) \<Longrightarrow> throttled (item_options details)"
  shows "wellformed s"
  using assms unfolding wellformed_def by blast

lemma wellformed_entry:
  assumes "wellformed s" and "map_of (editChannelNameTopicQueue s) key = Some request"
  shows "channelID request = key"
    and "details \<in> set (items request) \<Longrightarrow> throttled (item_options details)"
    and "amount request = 1 \<Longrightarrow> items request = []"
proof -
  from assms(2) have "(key, request) \<in> set (editChannelNameTopicQueue s)"
    by (rule map_of_SomeD)
  with assms(1) show "channelID request = key"
    and "details \<in> set (items request) \<Longrightarrow> throttled (item_options details)"
    and "amount request = 1 \<Longrightarrow> items request = []"
    unfolding wellformed_def by auto
qed

lemma wellformed_update:
  assumes "wellformed s"
    and "channelID request = key"
    and "amount request = 1 \<Longrightarrow> items request = []"
    and "\<And>details. details \<in> set (items request) \<Longrightarrow> throttled (item_options details)"
    and "\<And>details. details \<in> set extra \<Longrightarrow> throttled (item_options details)"
  shows "wellformed (s\<lparr>editChannelNameTopicQueue :=
                          AList.update key request (editChannelNameTopicQueue s),
                        resubmitted := resubmitted s @ extra\<rparr>)"
proof (rule wellformedI)
  show "distinct (map fst (editChannelNameTopicQueue
      (s\<lparr>editChannelNameTopicQueue := AList.update key request (editChannelNameTopicQueue s),
         resubmitted := resubmitted s @ extra\<rparr>)))"
    using assms(1) by (simp add: wellformed_def AList.distinct_update)
next
  fix k r
  assume "(k, r) \<in> set (editChannelNameTopicQueue
      (s\<lparr>editChannelNameTopicQueue := AList.update key request (editChannelNameTopicQueue s),
         resubmitted := resubmitted s @ extra\<rparr>))"
  then have "(k, r) = (key, request) \<or> (k, r) \<in> set (editChannelNameTopicQueue s)"
    using set_update_subset [of key request "editChannelNameTopicQueue s"] by auto
  then show "channelID r = k \<and> (amount r = 1 \<longrightarrow> items r = []) \<and>
      (\<forall>details \<in> set (items r). throttled (item_options details))"
    using assms unfolding wellformed_def by auto
next
  fix details
  assume "details \<in> set (resubmitted
      (s\<lparr>editChannelNameTopicQueue := AList.update key request (editChannelNameTopicQueue s),
         resubmitted := resubmitted s @ extra\<rparr>))"
  then show "throttled (item_options details)"
    using assms(1,5) unfolding wellformed_def by auto
qed

lemma wellformed_update':
  assumes "wellformed s"
    and "channelID request = key"
    and "amount request = 1 \<Longrightarrow> items request = []"
    and "\<And>details. details \<in> set (items request) \<Longrightarrow> throttled (item_options details)"
  shows "wellformed (s\<lparr>editChannelNameTopicQueue :=
                          AList.update key request (editChannelNameTopicQueue s)\<rparr>)"
  using wellformed_update [OF assms, of "[]"] by simp

lemma wellformed_delete:
  assumes "wellformed s"
  shows "wellformed (s\<lparr>editChannelNameTopicQueue :=
                          AList.delete key (editChannelNameTopicQueue s)\<rparr>)"
proof (rule wellformedI)
  show "distinct (map fst (editChannelNameTopicQueue
      (s\<lparr>editChannelNameTopicQueue := AList.delete key (editChannelNameTopicQueue s)\<rparr>)))"
    using assms by (simp add: wellformed_def AList.distinct_delete)
next
  fix k r
  assume "(k, r) \<in> set (editChannelNameTopicQueue
      (s\<lparr>editChannelNameTopicQueue := AList.delete key (editChannelNameTopicQueue s)\<rparr>))"
  then have "(k, r) \<in> set (editChannelNameTopicQueue s)"
    using set_delete_subset [of key "editChannelNameTopicQueue s"] by auto
  then show "channelID r = k \<and> (amount r = 1 \<longrightarrow> items r = []) \<and>
      (\<forall>details \<in> set (items r). throttled (item_options details))"
    using assms unfolding wellformed_def by auto
next
  fix details
  assume "details \<in> set (resubmitted
      (s\<lparr>editChannelNameTopicQueue := AList.delete key (editChannelNameTopicQueue s)\<rparr>))"
  then show "throttled (item_options details)"
    using assms unfolding wellformed_def by auto
qed

lemma wellformed_cong:
  assumes "editChannelNameTopicQueue s' = editChannelNameTopicQueue s"
    and "resubmitted s' = resubmitted s"
  shows "wellformed s' \<longleftrightarrow> wellformed s"
  using assms by (simp add: wellformed_def)

lemma wellformed_drainRequest:
  assumes "wellformed s" and "map_of (editChannelNameTopicQueue s) key = Some request"
  shows "wellformed (drainRequest now key request s)"
proof -
  note e = wellformed_entry [OF assms]
  show ?thesis
  proof (cases "now > timestamp request")
    case True
    with assms(1) show ?thesis by (simp add: drainRequest_def)
  next
    case False
    show ?thesis
    proof (cases "items request")
      case Nil
      with False assms(1) show ?thesis
        by (simp add: drainRequest_def wellformed_delete)
    next
      case (Cons details rest)
      show ?thesis
      proof (cases rest)
        case Nil
        have "wellformed (s\<lparr>editChannelNameTopicQueue :=
                 AList.update key (request\<lparr>amount := 0, items := []\<rparr>) (editChannelNameTopicQueue s),
               resubmitted := resubmitted s @ [details]\<rparr>)"
          using e Cons by (intro wellformed_update [OF assms(1)]) auto
        with False Cons Nil show ?thesis by (simp add: drainRequest_def)
      next
        case (Cons secondDetails rest')
        have "wellformed (s\<lparr>editChannelNameTopicQueue :=
                 AList.update key (request\<lparr>amount := 0, items := rest'\<rparr>) (editChannelNameTopicQueue s),
               resubmitted := resubmitted s @ [details, secondDetails]\<rparr>)"
          using e \<open>items request = details # rest\<close> Cons
          by (intro wellformed_update [OF assms(1)]) auto
        with False \<open>items request = details # rest\<close> Cons show ?thesis
          by (simp add: drainRequest_def)
      qed
    qed
  qed
qed

lemma wellformed_forEachRequest:
  "wellformed s \<Longrightarrow> wellformed (forEachRequest now keys s)"
  by (induction keys arbitrary: s) (auto simp: wellformed_drainRequest split: option.splits)

lemma wellformed_processEditChannelQueue:
  assumes "wellformed s"
  shows "wellformed (processEditChannelQueue now s)"
proof -
  have "wellformed (forEachRequest now (map fst (editChannelNameTopicQueue s)) s)"
    using assms by (rule wellformed_forEachRequest)
  then show ?thesis
    using assms
    by (simp add: processEditChannelQueue_def Let_def wellformed_def)
qed

lemma wellformed_editChannel:
  assumes "wellformed s"
  shows "wellformed (snd (editChannel botHasChannelPermissions Permissions now channelID' options reason s))"
proof (cases "botHasChannelPermissions channelID' \<and> throttled options")
  case False
  with assms show ?thesis
    by (auto simp: editChannel_def forward_def Let_def throttled_def wellformed_def)
next
  case True
  then have p: "botHasChannelPermissions channelID'"
    and t: "truthy (name options) \<or> truthy (topic options)"
    by (simp_all add: throttled_def)
  show ?thesis
  proof (cases "map_of (editChannelNameTopicQueue s) channelID'")
    case None
    have "wellformed (s\<lparr>editChannelNameTopicQueue := AList.update channelID'
             \<lparr>amount = 1, timestamp = now + 600000, channelID = channelID', items = []\<rparr>
             (editChannelNameTopicQueue s)\<rparr>)"
      by (intro wellformed_update' [OF assms]) auto
    then show ?thesis
      by (simp add: editChannel_idle [where botHasChannelPermissions = botHasChannelPermissions,
            OF p t None] wellformed_def)
  next
    case (Some request)
    note e = wellformed_entry [OF assms Some]
    show ?thesis
    proof (cases "amount request = 1")
      case True
      have "wellformed (s\<lparr>editChannelNameTopicQueue := AList.update channelID'
               (request\<lparr>amount := 2, timestamp := now + 600000\<rparr>)
               (editChannelNameTopicQueue s)\<rparr>)"
        using e by (intro wellformed_update' [OF assms]) auto
      then show ?thesis
        by (simp add: editChannel_open1 [where botHasChannelPermissions = botHasChannelPermissions,
              OF p t Some True] wellformed_def)
    next
      case False
      have w: "wellformed (enqueue channelID' options request s)"
        unfolding enqueue_def
        using e True False by (intro wellformed_update' [OF assms]) auto
      then have "wellformed ((enqueue channelID' options request s)\<lparr>editChannelProcessing := True\<rparr>)"
        by (simp add: wellformed_def)
      then have "wellformed (processEditChannelQueue now
          ((enqueue channelID' options request s)\<lparr>editChannelProcessing := True\<rparr>))"
        by (rule wellformed_processEditChannelQueue)
      with w show ?thesis
        by (simp add: editChannel_open2 [where botHasChannelPermissions = botHasChannelPermissions,
              OF p t Some False])
    qed
  qed
qed

lemma wellformed_resume:
  assumes "wellformed s"
  shows "wellformed (resume botHasChannelPermissions Permissions now s)"
proof (cases "resubmitted s")
  case Nil
  with assms show ?thesis by (simp add: resume_def)
next
  case (Cons details pending)
  with assms have "wellformed (s\<lparr>resubmitted := pending\<rparr>)"
    by (simp add: wellformed_def)
  then show ?thesis
    by (simp add: resume_def Cons wellformed_editChannel)
qed

lemma wellformed_drainTick:
  assumes "wellformed s"
  shows "wellformed (drainTick now s)"
proof (cases "timers s")
  case Nil
  with assms show ?thesis by (simp add: drainTick_def)
next
  case (Cons due later)
  from assms have "wellformed (s\<lparr>timers := later\<rparr>)"
    by (simp add: wellformed_def)
  with assms show ?thesis
    by (simp add: drainTick_def Cons wellformed_processEditChannelQueue)
qed

lemma reachable_wellformed: "reachable s \<Longrightarrow> wellformed s"
proof (induction rule: reachable.induct)
  case start
  show ?case by (simp add: wellformed_def initial_def)
next
  case (call s botHasChannelPermissions Permissions now channelID' options reason)
  then show ?case by (simp add: wellformed_editChannel)
next
  case (continue s botHasChannelPermissions Permissions now)
  then show ?case by (simp add: wellformed_resume)
next
  case (tick s now)
  then show ?case by (simp add: wellformed_drainTick)
qed

text \<open>
  A drain pass over a well-formed mapping keeps the record of a channel whose queue holds
  an edit \<open>e\<close> and whose count is not 1: afterwards the count is still not 1 and \<open>e\<close> is in
  the queue or among the pending re-submissions.
\<close>

lemma forEachRequest_flag [simp]:
  "editChannelProcessing (forEachRequest now keys s) = editChannelProcessing s"
  by (induction keys arbitrary: s) (auto simp: drainRequest_def split: option.splits list.splits)

lemma resubmitted_drainRequest:
  "set (resubmitted s) \<subseteq> set (resubmitted (drainRequest now key request s))"
  by (auto simp: drainRequest_def split: list.splits)

lemma drainRequest_other:
  assumes "channelID request = key" and "key \<noteq> c"
  shows "map_of (editChannelNameTopicQueue (drainRequest now key request s)) c =
         map_of (editChannelNameTopicQueue s) c"
  using assms
  by (auto simp: drainRequest_def AList.update_conv' AList.delete_conv' split: list.splits)

lemma drainRequest_own:
  assumes "e \<in> set (items request)" and "amount request \<noteq> 1"
  shows "\<exists>r'. map_of (editChannelNameTopicQueue (drainRequest now c request s)) c = Some r' \<and>
           amount r' \<noteq> 1 \<and>
           (e \<in> set (items r') \<or> e \<in> set (resubmitted (drainRequest now c request s)))
         \<or> drainRequest now c request s = s"
  using assms
  by (auto simp: drainRequest_def AList.update_conv' split: list.splits)

lemma forEachRequest_holds_edit:
  assumes "wellformed s"
    and "map_of (editChannelNameTopicQueue s) c = Some r" and "amount r \<noteq> 1"
    and "distinct keys"
    and "if c \<in> set keys then e \<in> set (items r)
         else e \<in> set (items r) \<or> e \<in> set (resubmitted s)"
  shows "\<exists>r'. map_of (editChannelNameTopicQueue (forEachRequest now keys s)) c = Some r' \<and>
           amount r' \<noteq> 1 \<and>
           (e \<in> set (items r') \<or> e \<in> set (resubmitted (forEachRequest now keys s)))"
  using assms
proof (induction keys arbitrary: s r)
  case Nil
  then show ?case by auto
next
  case (Cons key keys)
  show ?case
  proof (cases "map_of (editChannelNameTopicQueue s) key")
    case None
    with Cons.prems(2) have "key \<noteq> c" by auto
    with Cons.prems have "if c \<in> set keys then e \<in> set (items r)
         else e \<in> set (items r) \<or> e \<in> set (resubmitted s)"
      by auto
    with Cons.IH [OF Cons.prems(1,2,3)] Cons.prems(4) None show ?thesis by simp
  next
    case (Some request)
    let ?s = "drainRequest now key request s"
    have w: "wellformed ?s"
      using Cons.prems(1) Some by (rule wellformed_drainRequest)
    have d: "distinct keys" using Cons.prems(4) by simp
    show ?thesis
    proof (cases "key = c")
      case False
      have "channelID request = key"
        using Cons.prems(1) Some by (rule wellformed_entry)
      then have m: "map_of (editChannelNameTopicQueue ?s) c = Some r"
        using False Cons.prems(2) by (simp add: drainRequest_other)
      have "if c \<in> set keys then e \<in> set (items r)
            else e \<in> set (items r) \<or> e \<in> set (resubmitted ?s)"
        using Cons.prems(5) False resubmitted_drainRequest [of s now key request] by auto
      from Cons.IH [OF w m Cons.prems(3) d this] Some show ?thesis by simp
    next
      case True
      with Cons.prems(2) Some have rq: "request = r" by simp
      from True Cons.prems(4) have notin: "c \<notin> set keys" by simp
      from True Cons.prems(5) have e: "e \<in> set (items r)" by simp
      from drainRequest_own [OF e Cons.prems(3), of now c s]
      obtain r' where "map_of (editChannelNameTopicQueue ?s) c = Some r'"
        and "amount r' \<noteq> 1"
        and "e \<in> set (items r') \<or> e \<in> set (resubmitted ?s)"
        using True rq Cons.prems(2,3) e by auto
      with Cons.IH [OF w _ _ d, of r'] notin Some show ?thesis by simp
    qed
  qed
qed

lemma processEditChannelQueue_holds_edit:
  assumes "wellformed s" and "editChannelProcessing s"
    and "map_of (editChannelNameTopicQueue s) c = Some r" and "amount r \<noteq> 1"
    and "e \<in> set (items r)"
  shows "editChannelProcessing (processEditChannelQueue now s) \<and>
         (\<exists>r'. map_of (editChannelNameTopicQueue (processEditChannelQueue now s)) c = Some r' \<and>
            amount r' \<noteq> 1 \<and>
            (e \<in> set (items r') \<or> e \<in> set (resubmitted (processEditChannelQueue now s))))"
proof -
  let ?s = "forEachRequest now (map fst (editChannelNameTopicQueue s)) s"
  have "distinct (map fst (editChannelNameTopicQueue s))"
    using assms(1) by (simp add: wellformed_def)
  moreover have "if c \<in> set (map fst (editChannelNameTopicQueue s)) then e \<in> set (items r)
         else e \<in> set (items r) \<or> e \<in> set (resubmitted s)"
    using assms(5) by simp
  ultimately obtain r' where r': "map_of (editChannelNameTopicQueue ?s) c = Some r'"
    "amount r' \<noteq> 1" "e \<in> set (items r') \<or> e \<in> set (resubmitted ?s)"
    using forEachRequest_holds_edit [OF assms(1,3,4), of "map fst (editChannelNameTopicQueue s)" e now]
    by blast
  from r'(1) have "editChannelNameTopicQueue ?s \<noteq> []" by auto
  with r' assms(2) show ?thesis
    by (auto simp: processEditChannelQueue_def Let_def)
qed

text \<open>One pending re-submission runs while the record of \<open>c\<close> holds the edit back.\<close>

lemma resume_holds_edit:
  assumes "botHasChannelPermissions c" and "editChannelProcessing s"
    and "map_of (editChannelNameTopicQueue s) c = Some r" and "amount r \<noteq> 1"
    and "e \<in> set (items r) \<or> e \<in> set (resubmitted s)"
    and "item_channelID e = c"
    and "\<forall>details \<in> set (resubmitted s). throttled (item_options details)"
  shows "editChannelProcessing (resume botHasChannelPermissions Permissions now s) \<and>
         (\<exists>r'. map_of (editChannelNameTopicQueue
                  (resume botHasChannelPermissions Permissions now s)) c = Some r' \<and>
            amount r' \<noteq> 1 \<and>
            (e \<in> set (items r') \<or>
             e \<in> set (resubmitted (resume botHasChannelPermissions Permissions now s)))) \<and>
         (\<forall>details \<in> set (resubmitted (resume botHasChannelPermissions Permissions now s)).
            throttled (item_options details)) \<and>
         filter (\<lambda>p. patch_channelID p = c)
           (transport (resume botHasChannelPermissions Permissions now s)) =
         filter (\<lambda>p. patch_channelID p = c) (transport s)"
proof (cases "resubmitted s")
  case Nil
  with assms show ?thesis by (auto simp: resume_def)
next
  case (Cons details pending)
  let ?s = "s\<lparr>resubmitted := pending\<rparr>"
  have td: "truthy (name (item_options details)) \<or> truthy (topic (item_options details))"
    using assms(7) Cons by (simp add: throttled_def)
  have tp: "\<forall>d \<in> set pending. throttled (item_options d)"
    using assms(7) Cons by simp
  show ?thesis
  proof (cases "item_channelID details = c")
    case True
    have m: "map_of (editChannelNameTopicQueue ?s) c = Some r" using assms(3) by simp
    have "e \<in> set (items r) \<or> e = details \<or> e \<in> set pending"
      using assms(5) Cons by auto
    then show ?thesis
      using assms(2,4) tp True
      by (auto simp: resume_def Cons
          editChannel_open2 [where botHasChannelPermissions = botHasChannelPermissions
            and channelID' = c, OF assms(1) _ m assms(4)] td [unfolded True]
          enqueue_def AList.update_conv')
  next
    case False
    have "e \<noteq> details" using False assms(6) by auto
    with assms(5) Cons have e: "e \<in> set (items r) \<or> e \<in> set pending" by auto
    show ?thesis
      using assms(2,3,4) e tp False
      by (auto simp: resume_def Cons editChannel_def forward_def enqueue_def Let_def
          editChannelPayload_def AList.update_conv' split: option.splits)
  qed
qed

lemma resumes_hold_edit:
  assumes "botHasChannelPermissions c" and "editChannelProcessing s"
    and "map_of (editChannelNameTopicQueue s) c = Some r" and "amount r \<noteq> 1"
    and "e \<in> set (items r) \<or> e \<in> set (resubmitted s)"
    and "item_channelID e = c"
    and "\<forall>details \<in> set (resubmitted s). throttled (item_options details)"
  shows "filter (\<lambda>p. patch_channelID p = c)
           (transport (fold (resume botHasChannelPermissions Permissions) nows s)) =
         filter (\<lambda>p. patch_channelID p = c) (transport s) \<and>
         (\<exists>r'. map_of (editChannelNameTopicQueue
                  (fold (resume botHasChannelPermissions Permissions) nows s)) c = Some r' \<and>
            (e \<in> set (items r') \<or>
             e \<in> set (resubmitted (fold (resume botHasChannelPermissions Permissions) nows s))))"
  using assms
proof (induction nows arbitrary: s r)
  case Nil
  then show ?case by auto
next
  case (Cons now nows)
  let ?s = "resume botHasChannelPermissions Permissions now s"
  from resume_holds_edit [where botHasChannelPermissions = botHasChannelPermissions and c = c,
      OF Cons.prems, of Permissions now]
  obtain r' where f: "editChannelProcessing ?s"
    and m: "map_of (editChannelNameTopicQueue ?s) c = Some r'"
    and a: "amount r' \<noteq> 1"
    and e: "e \<in> set (items r') \<or> e \<in> set (resubmitted ?s)"
    and t: "\<forall>details \<in> set (resubmitted ?s). throttled (item_options details)"
    and tr: "filter (\<lambda>p. patch_channelID p = c) (transport ?s) =
             filter (\<lambda>p. patch_channelID p = c) (transport s)"
    by blast
  from Cons.IH [where s = ?s, OF Cons.prems(1) f m a e Cons.prems(6) t] tr
  show ?case by simp
qed

text \<open>
  Claim C2. Channel \<open>c\<close> has no record in the reachable state \<open>s0\<close>; three authorised
  edits, each with a truthy name or topic, are made one after the other at times \<open>t1\<close>,
  \<open>t2\<close>, \<open>t3\<close>. The first creates the record with count 1 and expiry \<open>t1 + 600000\<close> and
  is forwarded by the call; the second sets the count to 2 and the expiry to
  \<open>t2 + 600000\<close> and is forwarded by the call; the third returns \<^verbatim>\<open>undefined\<close>, is
  appended to the queue of the record, and adds nothing to the transport, not even when
  the call goes on to start the drain cycle and runs the first drain pass itself.
  Afterwards, however many pending re-submissions run (at the clock values \<open>nows\<close>) before
  a timer fires, no request for channel \<open>c\<close> reaches the transport, and the third edit is
  in the queue of the record or still pending.
\<close>

theorem three_throttled_edits:
  assumes "reachable s0"
    and "botHasChannelPermissions c"
    and "truthy (name o1) \<or> truthy (topic o1)"
    and "truthy (name o2) \<or> truthy (topic o2)"
    and "truthy (name o3) \<or> truthy (topic o3)"
    and "map_of (editChannelNameTopicQueue s0) c = None"
    and "editChannel botHasChannelPermissions Permissions t1 c o1 reason1 s0 = (res1, s1)"
    and "editChannel botHasChannelPermissions Permissions t2 c o2 reason2 s1 = (res2, s2)"
    and "editChannel botHasChannelPermissions Permissions t3 c o3 reason3 s2 = (res3, s3)"
  shows "res1 = Inr (Some (editChannelPayload Permissions c o1 reason1))
       \<and> transport s1 = transport s0 @ [editChannelPayload Permissions c o1 reason1]
       \<and> map_of (editChannelNameTopicQueue s1) c =
           Some \<lparr>amount = 1, timestamp = t1 + 600000, channelID = c, items = []\<rparr>
       \<and> res2 = Inr (Some (editChannelPayload Permissions c o2 reason2))
       \<and> transport s2 = transport s1 @ [editChannelPayload Permissions c o2 reason2]
       \<and> map_of (editChannelNameTopicQueue s2) c =
           Some \<lparr>amount = 2, timestamp = t2 + 600000, channelID = c, items = []\<rparr>
       \<and> res3 = Inr None
       \<and> transport s3 = transport s2
       \<and> map_of (editChannelNameTopicQueue
             (enqueue c o3 \<lparr>amount = 2, timestamp = t2 + 600000, channelID = c, items = []\<rparr> s2)) c =
           Some \<lparr>amount = 2, timestamp = t2 + 600000, channelID = c,
                 items = [\<lparr>item_channelID = c, item_options = o3\<rparr>]\<rparr>
       \<and> s3 = (if editChannelProcessing s0
               then enqueue c o3 \<lparr>amount = 2, timestamp = t2 + 600000, channelID = c, items = []\<rparr> s2
               else processEditChannelQueue t3
                      ((enqueue c o3 \<lparr>amount = 2, timestamp = t2 + 600000, channelID = c, items = []\<rparr> s2)
                         \<lparr>editChannelProcessing := True\<rparr>))
       \<and> (\<forall>nows.
             filter (\<lambda>p. patch_channelID p = c)
               (transport (fold (resume botHasChannelPermissions Permissions) nows s3)) =
             filter (\<lambda>p. patch_channelID p = c) (transport s2)
           \<and> (\<exists>r. map_of (editChannelNameTopicQueue
                       (fold (resume botHasChannelPermissions Permissions) nows s3)) c = Some r \<and>
                 (\<lparr>item_channelID = c, item_options = o3\<rparr> \<in> set (items r) \<or>
                  \<lparr>item_channelID = c, item_options = o3\<rparr> \<in> set (resubmitted
                     (fold (resume botHasChannelPermissions Permissions) nows s3)))))"
proof -
  let ?r2 = "\<lparr>amount = 2, timestamp = t2 + 600000, channelID = c, items = []\<rparr>"
  let ?e = "\<lparr>item_channelID = c, item_options = o3\<rparr>"
  let ?q = "enqueue c o3 ?r2 s2"
  note trace = three_edits_trace [OF assms(2-9)]
  from trace have m2: "map_of (editChannelNameTopicQueue s2) c = Some ?r2"
    and tr: "transport s3 = transport s2"
    and mq: "map_of (editChannelNameTopicQueue ?q) c =
               Some \<lparr>amount = 2, timestamp = t2 + 600000, channelID = c, items = [?e]\<rparr>"
    and s3: "s3 = (if editChannelProcessing s0 then ?q
                   else processEditChannelQueue t3 (?q\<lparr>editChannelProcessing := True\<rparr>))"
    by blast+
  have "s1 = snd (editChannel botHasChannelPermissions Permissions t1 c o1 reason1 s0)"
    using assms(7) by simp
  with assms(1) have r1: "reachable s1" by (simp add: reachable.call)
  have "s2 = snd (editChannel botHasChannelPermissions Permissions t2 c o2 reason2 s1)"
    using assms(8) by simp
  with r1 have r2: "reachable s2" by (simp add: reachable.call)
  have "s3 = snd (editChannel botHasChannelPermissions Permissions t3 c o3 reason3 s2)"
    using assms(9) by simp
  with r2 have "reachable s3" by (simp add: reachable.call)
  then have "wellformed s3" by (rule reachable_wellformed)
  then have thr: "\<forall>details \<in> set (resubmitted s3). throttled (item_options details)"
    by (simp add: wellformed_def)
  have f2: "editChannelProcessing s2 = editChannelProcessing s0"
    using trace assms(7,8)
      editChannel_idle [where botHasChannelPermissions = botHasChannelPermissions
        and channelID' = c, OF assms(2,3,6), of Permissions t1 reason1]
      editChannel_open1 [where botHasChannelPermissions = botHasChannelPermissions
        and channelID' = c and s = s1 and options = o2
        and request = "\<lparr>amount = 1, timestamp = t1 + 600000, channelID = c, items = []\<rparr>",
        OF assms(2,4), of Permissions t2 reason2]
    by auto
  have wq: "wellformed ?q"
    unfolding enqueue_def
    using assms(5)
    by (intro wellformed_update' [OF reachable_wellformed [OF r2]]) (auto simp: throttled_def)
  have held: "editChannelProcessing s3 \<and>
      (\<exists>r. map_of (editChannelNameTopicQueue s3) c = Some r \<and> amount r \<noteq> 1 \<and>
           (?e \<in> set (items r) \<or> ?e \<in> set (resubmitted s3)))"
  proof (cases "editChannelProcessing s0")
    case True
    with s3 f2 mq show ?thesis by (simp add: enqueue_def)
  next
    case False
    have w: "wellformed (?q\<lparr>editChannelProcessing := True\<rparr>)"
      using wq by (simp add: wellformed_def)
    have mq': "map_of (editChannelNameTopicQueue (?q\<lparr>editChannelProcessing := True\<rparr>)) c =
        Some \<lparr>amount = 2, timestamp = t2 + 600000, channelID = c, items = [?e]\<rparr>"
      using mq by simp
    have "editChannelProcessing (processEditChannelQueue t3 (?q\<lparr>editChannelProcessing := True\<rparr>)) \<and>
      (\<exists>r'. map_of (editChannelNameTopicQueue
                (processEditChannelQueue t3 (?q\<lparr>editChannelProcessing := True\<rparr>))) c = Some r' \<and>
         amount r' \<noteq> 1 \<and>
         (?e \<in> set (items r') \<or>
          ?e \<in> set (resubmitted (processEditChannelQueue t3 (?q\<lparr>editChannelProcessing := True\<rparr>)))))"
    proof (rule processEditChannelQueue_holds_edit [OF w _ mq'])
      show "editChannelProcessing (?q\<lparr>editChannelProcessing := True\<rparr>)" by simp
      show "amount \<lparr>amount = 2, timestamp = t2 + 600000, channelID = c, items = [?e]\<rparr> \<noteq> 1"
        by simp
      show "?e \<in> set (items \<lparr>amount = 2, timestamp = t2 + 600000, channelID = c,
                               items = [?e]\<rparr>)"
        by simp
    qed
    with s3 False show ?thesis by simp
  qed
  then obtain r where f3: "editChannelProcessing s3"
    and m3: "map_of (editChannelNameTopicQueue s3) c = Some r"
    and a3: "amount r \<noteq> 1"
    and e3: "?e \<in> set (items r) \<or> ?e \<in> set (resubmitted s3)"
    by blast
  have ce: "item_channelID ?e = c" by simp
  have "\<forall>nows.
      filter (\<lambda>p. patch_channelID p = c)
        (transport (fold (resume botHasChannelPermissions Permissions) nows s3)) =
      filter (\<lambda>p. patch_channelID p = c) (transport s2)
    \<and> (\<exists>r. map_of (editChannelNameTopicQueue
                (fold (resume botHasChannelPermissions Permissions) nows s3)) c = Some r \<and>
          (?e \<in> set (items r) \<or>
           ?e \<in> set (resubmitted (fold (resume botHasChannelPermissions Permissions) nows s3))))"
    using resumes_hold_edit [where botHasChannelPermissions = botHasChannelPermissions
        and c = c, OF assms(2) f3 m3 a3 e3 ce thr, of Permissions] tr
    by simp
  with trace show ?thesis by blast
qed

text \<open>
  The run from the initial state, with the calls at times 0, 1 and 2: the third call
  starts the drain cycle, whose first pass takes the edit off the queue and re-submits it;
  when the re-submission runs at time 3 the edit is back in the queue, and the transport
  still holds the first two requests only.
\<close>

theorem three_throttled_edits_witness:
  "editChannel granted wide_table 0 ''c'' (rename ''n1'') None initial =
     (Inr (Some (editChannelPayload wide_table ''c'' (rename ''n1'') None)),
      \<lparr>editChannelNameTopicQueue =
         [(''c'', \<lparr>amount = 1, timestamp = 600000, channelID = ''c'', items = []\<rparr>)],
       editChannelProcessing = False,
       transport = [editChannelPayload wide_table ''c'' (rename ''n1'') None],
       timers = [], resubmitted = []\<rparr>)
   \<and> editChannel granted wide_table 1 ''c'' (rename ''n2'') None
       \<lparr>editChannelNameTopicQueue =
         [(''c'', \<lparr>amount = 1, timestamp = 600000, channelID = ''c'', items = []\<rparr>)],
        editChannelProcessing = False,
        transport = [editChannelPayload wide_table ''c'' (rename ''n1'') None],
        timers = [], resubmitted = []\<rparr> =
     (Inr (Some (editChannelPayload wide_table ''c'' (rename ''n2'') None)),
      \<lparr>editChannelNameTopicQueue =
         [(''c'', \<lparr>amount = 2, timestamp = 600001, channelID = ''c'', items = []\<rparr>)],
       editChannelProcessing = False,
       transport = [editChannelPayload wide_table ''c'' (rename ''n1'') None,
                    editChannelPayload wide_table ''c'' (rename ''n2'') None],
       timers = [], resubmitted = []\<rparr>)
   \<and> editChannel granted wide_table 2 ''c'' (rename ''n3'') None
       \<lparr>editChannelNameTopicQueue =
         [(''c'', \<lparr>amount = 2, timestamp = 600001, channelID = ''c'', items = []\<rparr>)],
        editChannelProcessing = False,
        transport = [editChannelPayload wide_table ''c'' (rename ''n1'') None,
                     editChannelPayload wide_table ''c'' (rename ''n2'') None],
        timers = [], resubmitted = []\<rparr> =
     (Inr None,
      \<lparr>editChannelNameTopicQueue =
         [(''c'', \<lparr>amount = 0, timestamp = 600001, channelID = ''c'', items = []\<rparr>)],
       editChannelProcessing = True,
       transport = [editChannelPayload wide_table ''c'' (rename ''n1'') None,
                    editChannelPayload wide_table ''c'' (rename ''n2'') None],
       timers = [600002],
       resubmitted = [\<lparr>item_channelID = ''c'', item_options = rename ''n3''\<rparr>]\<rparr>)
   \<and> fold (resume granted wide_table) [3]
       \<lparr>editChannelNameTopicQueue =
         [(''c'', \<lparr>amount = 0, timestamp = 600001, channelID = ''c'', items = []\<rparr>)],
        editChannelProcessing = True,
        transport = [editChannelPayload wide_table ''c'' (rename ''n1'') None,
                     editChannelPayload wide_table ''c'' (rename ''n2'') None],
        timers = [600002],
        resubmitted = [\<lparr>item_channelID = ''c'', item_options = rename ''n3''\<rparr>]\<rparr> =
      \<lparr>editChannelNameTopicQueue =
         [(''c'', \<lparr>amount = 0, timestamp = 600001, channelID = ''c'',
                  items = [\<lparr>item_channelID = ''c'', item_options = rename ''n3''\<rparr>]\<rparr>)],
       editChannelProcessing = True,
       transport = [editChannelPayload wide_table ''c'' (rename ''n1'') None,
                    editChannelPayload wide_table ''c'' (rename ''n2'') None],
       timers = [600002], resubmitted = []\<rparr>
   \<and> filter (\<lambda>p. patch_channelID p = ''c'')
        (transport (fold (resume granted wide_table) [3]
          \<lparr>editChannelNameTopicQueue =
            [(''c'', \<lparr>amount = 0, timestamp = 600001, channelID = ''c'', items = []\<rparr>)],
           editChannelProcessing = True,
           transport = [editChannelPayload wide_table ''c'' (rename ''n1'') None,
                        editChannelPayload wide_table ''c'' (rename ''n2'') None],
           timers = [600002],
           resubmitted = [\<lparr>item_channelID = ''c'', item_options = rename ''n3''\<rparr>]\<rparr>)) =
      [editChannelPayload wide_table ''c'' (rename ''n1'') None,
       editChannelPayload wide_table ''c'' (rename ''n2'') None]"
  using three_throttled_edits [where botHasChannelPermissions = granted and c = "''c''"
      and ?o1.0 = "rename ''n1''" and ?o2.0 = "rename ''n2''" and ?o3.0 = "rename ''n3''"
      and ?s0.0 = initial and Permissions = wide_table
      and ?t1.0 = 0 and ?t2.0 = 1 and ?t3.0 = 2
      and ?reason1.0 = None and ?reason2.0 = None and ?reason3.0 = None
      and ?res1.0 = "Inr (Some (editChannelPayload wide_table ''c'' (rename ''n1'') None))"
      and ?s1.0 = "\<lparr>editChannelNameTopicQueue =
         [(''c'', \<lparr>amount = 1, timestamp = 600000, channelID = ''c'', items = []\<rparr>)],
       editChannelProcessing = False,
       transport = [editChannelPayload wide_table ''c'' (rename ''n1'') None],
       timers = [], resubmitted = []\<rparr>"
      and ?res2.0 = "Inr (Some (editChannelPayload wide_table ''c'' (rename ''n2'') None))"
      and ?s2.0 = "\<lparr>editChannelNameTopicQueue =
         [(''c'', \<lparr>amount = 2, timestamp = 600001, channelID = ''c'', items = []\<rparr>)],
       editChannelProcessing = False,
       transport = [editChannelPayload wide_table ''c'' (rename ''n1'') None,
                    editChannelPayload wide_table ''c'' (rename ''n2'') None],
       timers = [], resubmitted = []\<rparr>"
      and ?res3.0 = "Inr None"
      and ?s3.0 = "\<lparr>editChannelNameTopicQueue =
         [(''c'', \<lparr>amount = 0, timestamp = 600001, channelID = ''c'', items = []\<rparr>)],
       editChannelProcessing = True,
       transport = [editChannelPayload wide_table ''c'' (rename ''n1'') None,
                    editChannelPayload wide_table ''c'' (rename ''n2'') None],
       timers = [600002],
       resubmitted = [\<lparr>item_channelID = ''c'', item_options = rename ''n3''\<rparr>]\<rparr>",
      OF reachable.start]
  by (simp add: granted_def rename_def truthy_def initial_def editChannel_def forward_def
      enqueue_def processEditChannelQueue_def drainRequest_def resume_def Let_def
      editChannelPayload_def)

text \<open>
  Claim C3, on the code. A mapping holds one record with three queued edits, the drain
  cycle runs and its timer is due. The drain tick at \<open>now\<close> and the two re-submissions it
  makes leave the transport as it was. When the window has not elapsed
  (\<open>now \<le> ts\<close>) the count is reset to 0 and the first two edits are taken off the
  queue and re-submitted, but \<^verbatim>\<open>editChannel\<close> forwards a throttled edit only when there
  is no record or the count is 1, so both go back to the queue, behind the third. When the
  window has elapsed (\<open>now > ts\<close>) the record is skipped.
\<close>

theorem drain_three_queued_forwards_nothing:
  assumes "botHasChannelPermissions c"
    and "truthy (name o1) \<or> truthy (topic o1)"
    and "truthy (name o2) \<or> truthy (topic o2)"
    and "due \<le> now"
    and "s = \<lparr>editChannelNameTopicQueue =
                 [(c, \<lparr>amount = a, timestamp = ts, channelID = c,
                       items = [\<lparr>item_channelID = c, item_options = o1\<rparr>,
                                \<lparr>item_channelID = c, item_options = o2\<rparr>,
                                \<lparr>item_channelID = c, item_options = o3\<rparr>]\<rparr>)],
               editChannelProcessing = True, transport = sent, timers = [due],
               resubmitted = []\<rparr>"
  shows "resume botHasChannelPermissions Permissions now'
           (resume botHasChannelPermissions Permissions now' (drainTick now s)) =
         \<lparr>editChannelNameTopicQueue =
            [(c, \<lparr>amount = (if now > ts then a else 0), timestamp = ts, channelID = c,
                  items = (if now > ts
                           then [\<lparr>item_channelID = c, item_options = o1\<rparr>,
                                 \<lparr>item_channelID = c, item_options = o2\<rparr>,
                                 \<lparr>item_channelID = c, item_options = o3\<rparr>]
                           else [\<lparr>item_channelID = c, item_options = o3\<rparr>,
                                 \<lparr>item_channelID = c, item_options = o1\<rparr>,
                                 \<lparr>item_channelID = c, item_options = o2\<rparr>])\<rparr>)],
          editChannelProcessing = True, transport = sent, timers = [now + 600000],
          resubmitted = []\<rparr>"
proof (cases "now > ts")
  case True
  with assms(4) show ?thesis
    by (simp add: assms(5) drainTick_def processEditChannelQueue_def drainRequest_def resume_def)
next
  case False
  have d: "drainTick now s =
     \<lparr>editChannelNameTopicQueue =
        [(c, \<lparr>amount = 0, timestamp = ts, channelID = c,
              items = [\<lparr>item_channelID = c, item_options = o3\<rparr>]\<rparr>)],
      editChannelProcessing = True, transport = sent, timers = [now + 600000],
      resubmitted = [\<lparr>item_channelID = c, item_options = o1\<rparr>,
                     \<lparr>item_channelID = c, item_options = o2\<rparr>]\<rparr>"
    using False assms(4)
    by (simp add: assms(5) drainTick_def processEditChannelQueue_def drainRequest_def)
  show ?thesis
    using False assms(1,2,3)
    by (simp add: d resume_def editChannel_def enqueue_def Let_def)
qed

theorem drain_three_queued_forwards_nothing_witness:
  "resume granted wide_table 600000 (resume granted wide_table 600000
     (drainTick 600000 three_queued)) =
     \<lparr>editChannelNameTopicQueue =
        [(''a'', \<lparr>amount = 0, timestamp = 600000, channelID = ''a'',
                 items = [\<lparr>item_channelID = ''a'', item_options = rename ''a5''\<rparr>,
                          \<lparr>item_channelID = ''a'', item_options = rename ''a3''\<rparr>,
                          \<lparr>item_channelID = ''a'', item_options = rename ''a4''\<rparr>]\<rparr>)],
      editChannelProcessing = True,
      transport = [editChannelPayload wide_table ''a'' (rename ''a1'') None,
                   editChannelPayload wide_table ''a'' (rename ''a2'') None],
      timers = [1200000], resubmitted = []\<rparr>"
  using drain_three_queued_forwards_nothing [where botHasChannelPermissions = granted
      and c = "''a''" and ?o1.0 = "rename ''a3''" and ?o2.0 = "rename ''a4''"
      and ?o3.0 = "rename ''a5''" and due = 600000 and now = 600000 and now' = 600000
      and a = 0 and ts = 600000 and Permissions = wide_table
      and sent = "[editChannelPayload wide_table ''a'' (rename ''a1'') None,
                   editChannelPayload wide_table ''a'' (rename ''a2'') None]"
      and s = three_queued]
  by (simp add: granted_def rename_def truthy_def three_queued_def)

lemma drainRequest_elapsed:
  "timestamp request < now \<Longrightarrow> drainRequest now key request s = s"
  by (simp add: drainRequest_def)

lemma forEachRequest_elapsed:
  assumes "\<forall>(key, request) \<in> set (editChannelNameTopicQueue s). timestamp request < now"
  shows "forEachRequest now keys s = s"
proof (induction keys)
  case Nil
  show ?case by simp
next
  case (Cons key keys)
  show ?case
  proof (cases "map_of (editChannelNameTopicQueue s) key")
    case None
    with Cons show ?thesis by simp
  next
    case (Some request)
    then have "(key, request) \<in> set (editChannelNameTopicQueue s)"
      by (rule map_of_SomeD)
    with assms have "timestamp request < now" by auto
    with Some Cons show ?thesis by (simp add: drainRequest_elapsed)
  qed
qed

text \<open>
  Claim C4, on the code. The callback of the drain pass returns at once for a record
  whose window has elapsed (\<^verbatim>\<open>if (now > request.timestamp) return;\<close>). So a drain pass
  that runs when every window has elapsed leaves the mapping as it was, and a record with
  an empty queue and an elapsed window is still there afterwards.
\<close>

theorem drain_keeps_elapsed_empty_record:
  assumes "editChannelProcessing s"
    and "\<forall>(key, request) \<in> set (editChannelNameTopicQueue s). timestamp request < now"
    and "map_of (editChannelNameTopicQueue s) c = Some request"
    and "items request = []"
  shows "map_of (editChannelNameTopicQueue (processEditChannelQueue now s)) c = Some request
       \<and> editChannelNameTopicQueue (processEditChannelQueue now s) = editChannelNameTopicQueue s"
  using assms by (auto simp: processEditChannelQueue_def forEachRequest_elapsed Let_def)

theorem drain_keeps_elapsed_empty_record_witness:
  "map_of (editChannelNameTopicQueue (processEditChannelQueue 600010 late_b)) ''b'' =
     Some \<lparr>amount = 1, timestamp = 600005, channelID = ''b'', items = []\<rparr>
   \<and> editChannelNameTopicQueue (processEditChannelQueue 600010 late_b) =
       editChannelNameTopicQueue late_b"
  using drain_keeps_elapsed_empty_record [of late_b 600010 "''b''"
      "\<lparr>amount = 1, timestamp = 600005, channelID = ''b'', items = []\<rparr>"]
  by (simp add: late_b_def)

text \<open>
  The example states are reached from the initial state by calls of
  \<^verbatim>\<open>editChannel\<close> and the re-submission that the first drain pass makes.
\<close>

lemma two_open_reached:
  "snd (editChannel granted wide_table 0 ''a'' (rename ''a2'') None
     (snd (editChannel granted wide_table 0 ''a'' (rename ''a1'') None
        (snd (editChannel granted wide_table 0 ''b'' (rename ''b1'') None initial))))) = two_open"
  by (simp add: granted_def rename_def truthy_def initial_def editChannel_def forward_def
      two_open_def Let_def)

lemma three_queued_reached:
  "snd (editChannel granted wide_table 0 ''a'' (rename ''a5'') None
     (snd (editChannel granted wide_table 0 ''a'' (rename ''a4'') None
        (resume granted wide_table 0
           (snd (editChannel granted wide_table 0 ''a'' (rename ''a3'') None
              (snd (editChannel granted wide_table 0 ''a'' (rename ''a2'') None
                 (snd (editChannel granted wide_table 0 ''a'' (rename ''a1'') None
                    initial)))))))))) = three_queued"
  by (simp add: granted_def rename_def truthy_def initial_def editChannel_def forward_def
      three_queued_def enqueue_def processEditChannelQueue_def drainRequest_def resume_def
      Let_def)

lemma late_b_reached:
  "snd (editChannel granted wide_table 5 ''b'' (rename ''b1'') None
     (resume granted wide_table 0
        (snd (editChannel granted wide_table 0 ''a'' (rename ''a3'') None
           (snd (editChannel granted wide_table 0 ''a'' (rename ''a2'') None
              (snd (editChannel granted wide_table 0 ''a'' (rename ''a1'') None initial)))))))) =
   late_b"
  by (simp add: granted_def rename_def truthy_def initial_def editChannel_def forward_def
      late_b_def enqueue_def processEditChannelQueue_def drainRequest_def resume_def Let_def)

text \<open>
  The admission step reads and writes the record of the edited channel only. For distinct
  channels \<open>a\<close> and \<open>b\<close>: an edit to \<open>a\<close> that is rejected or forwarded, and an edit to
  \<open>a\<close> that is deferred while the drain-cycle flag is set, leaves the record of \<open>b\<close> as it
  was; and whether an edit to \<open>b\<close> is rejected, forwarded or deferred depends only on the
  capability lookup, the options and the record of \<open>b\<close>.
\<close>

lemma editChannel_other_channel:
  assumes "a \<noteq> b"
  shows "(editChannelProcessing s \<or>
          fst (editChannel botHasChannelPermissions Permissions now a options reason s) \<noteq> Inr None \<longrightarrow>
            map_of (editChannelNameTopicQueue
              (snd (editChannel botHasChannelPermissions Permissions now a options reason s))) b =
            map_of (editChannelNameTopicQueue s) b)
       \<and> (map_of (editChannelNameTopicQueue s) b = map_of (editChannelNameTopicQueue s') b \<longrightarrow>
            fst (editChannel botHasChannelPermissions Permissions now' b options' reason' s) =
            fst (editChannel botHasChannelPermissions Permissions now'' b options' reason' s'))"
proof (intro conjI impI)
  assume "editChannelProcessing s \<or>
    fst (editChannel botHasChannelPermissions Permissions now a options reason s) \<noteq> Inr None"
  with assms show "map_of (editChannelNameTopicQueue
      (snd (editChannel botHasChannelPermissions Permissions now a options reason s))) b =
    map_of (editChannelNameTopicQueue s) b"
    by (auto simp: editChannel_def forward_def enqueue_def Let_def AList.update_conv'
        split: option.splits if_splits)
next
  assume "map_of (editChannelNameTopicQueue s) b = map_of (editChannelNameTopicQueue s') b"
  then show "fst (editChannel botHasChannelPermissions Permissions now' b options' reason' s) =
    fst (editChannel botHasChannelPermissions Permissions now'' b options' reason' s')"
    by (auto simp: editChannel_def forward_def Let_def split: option.splits)
qed

text \<open>
  A drain pass creates no record and gives no record a count other than 1 that did not
  have one: it resets the count only of a record with a non-empty queue, and a record with
  count 1 has an empty queue.
\<close>

lemma editChannel_deferred_iff:
  "fst (editChannel botHasChannelPermissions Permissions now c options reason s) = Inr None \<longleftrightarrow>
     botHasChannelPermissions c \<and> throttled options \<and>
     (\<exists>request. map_of (editChannelNameTopicQueue s) c = Some request \<and> amount request \<noteq> 1)"
  by (auto simp: editChannel_def forward_def Let_def throttled_def split: option.splits)

lemma drainRequest_created_nothing:
  assumes "wellformed s" and "map_of (editChannelNameTopicQueue s) key = Some request"
    and "map_of (editChannelNameTopicQueue (drainRequest now key request s)) b = Some r'"
    and "amount r' \<noteq> 1"
  shows "\<exists>r. map_of (editChannelNameTopicQueue s) b = Some r \<and> amount r \<noteq> 1"
proof (cases "key = b")
  case False
  have "channelID request = key" using assms(1,2) by (rule wellformed_entry)
  with False assms(3,4) show ?thesis by (simp add: drainRequest_other)
next
  case True
  note e = wellformed_entry [OF assms(1,2)]
  show ?thesis
  proof (cases "amount request = 1")
    case False
    with True assms(2) show ?thesis by simp
  next
    case one: True
    then have "items request = []" by (rule e(3))
    with assms(3) True e(1) have "now > timestamp request"
      by (auto simp: drainRequest_def AList.delete_conv' split: if_splits)
    then have "drainRequest now key request s = s" by (simp add: drainRequest_def)
    with assms(2,3,4) True one show ?thesis by simp
  qed
qed

lemma forEachRequest_created_nothing:
  assumes "wellformed s"
    and "map_of (editChannelNameTopicQueue (forEachRequest now keys s)) b = Some r'"
    and "amount r' \<noteq> 1"
  shows "\<exists>r. map_of (editChannelNameTopicQueue s) b = Some r \<and> amount r \<noteq> 1"
  using assms
proof (induction keys arbitrary: s)
  case Nil
  then show ?case by auto
next
  case (Cons key keys)
  show ?case
  proof (cases "map_of (editChannelNameTopicQueue s) key")
    case None
    with Cons show ?thesis by simp
  next
    case (Some request)
    have w: "wellformed (drainRequest now key request s)"
      using Cons.prems(1) Some by (rule wellformed_drainRequest)
    from Cons.prems(2) Some
    have "map_of (editChannelNameTopicQueue
             (forEachRequest now keys (drainRequest now key request s))) b = Some r'"
      by simp
    from Cons.IH [OF w this Cons.prems(3)]
    obtain r where "map_of (editChannelNameTopicQueue (drainRequest now key request s)) b = Some r"
      and "amount r \<noteq> 1" by blast
    with Cons.prems(1) Some show ?thesis by (rule drainRequest_created_nothing)
  qed
qed

lemma processEditChannelQueue_created_nothing:
  assumes "wellformed s"
    and "map_of (editChannelNameTopicQueue (processEditChannelQueue now s)) b = Some r'"
    and "amount r' \<noteq> 1"
  shows "\<exists>r. map_of (editChannelNameTopicQueue s) b = Some r \<and> amount r \<noteq> 1"
proof (cases "editChannelProcessing s")
  case False
  with assms show ?thesis by (auto simp: processEditChannelQueue_def)
next
  case True
  with assms(2)
  have "map_of (editChannelNameTopicQueue
          (forEachRequest now (map fst (editChannelNameTopicQueue s)) s)) b = Some r'"
    by (auto simp: processEditChannelQueue_def Let_def split: if_splits)
  with assms(1) show ?thesis using assms(3) by (rule forEachRequest_created_nothing)
qed

text \<open>
  In every reachable state, an edit to \<open>b\<close> that is deferred after an edit to another
  channel \<open>a\<close> is deferred without that edit too: no edit to \<open>a\<close> causes an edit to \<open>b\<close>
  to be deferred.
\<close>

lemma edit_to_a_never_defers_b:
  assumes "reachable s" and "a \<noteq> b"
    and "fst (editChannel lookup' Permissions' now' b options' reason'
           (snd (editChannel lookup Permissions now a options reason s))) = Inr None"
  shows "fst (editChannel lookup' Permissions' now' b options' reason' s) = Inr None"
proof -
  let ?s = "snd (editChannel lookup Permissions now a options reason s)"
  from assms(3) obtain r' where p: "lookup' b" and t: "throttled options'"
    and m: "map_of (editChannelNameTopicQueue ?s) b = Some r'" and a: "amount r' \<noteq> 1"
    by (auto simp: editChannel_deferred_iff)
  have w: "wellformed s" using assms(1) by (rule reachable_wellformed)
  have "\<exists>r. map_of (editChannelNameTopicQueue s) b = Some r \<and> amount r \<noteq> 1"
  proof (cases "editChannelProcessing s \<or>
      fst (editChannel lookup Permissions now a options reason s) \<noteq> Inr None")
    case True
    with editChannel_other_channel [OF assms(2), of s lookup Permissions now options reason]
    have "map_of (editChannelNameTopicQueue ?s) b = map_of (editChannelNameTopicQueue s) b"
      by blast
    with m a show ?thesis by auto
  next
    case False
    then have nf: "\<not> editChannelProcessing s"
      and d: "fst (editChannel lookup Permissions now a options reason s) = Inr None"
      by simp_all
    from d obtain ra where pa: "lookup a"
      and ta: "truthy (name options) \<or> truthy (topic options)"
      and ma: "map_of (editChannelNameTopicQueue s) a = Some ra" and aa: "amount ra \<noteq> 1"
      by (auto simp: editChannel_deferred_iff throttled_def)
    let ?q = "(enqueue a options ra s)\<lparr>editChannelProcessing := True\<rparr>"
    have s': "?s = processEditChannelQueue now ?q"
      using nf
      by (simp add: editChannel_open2 [where botHasChannelPermissions = lookup
            and channelID' = a, OF pa ta ma aa])
    have "wellformed (enqueue a options ra s)"
      unfolding enqueue_def
      using wellformed_entry [OF w ma] ta aa
      by (intro wellformed_update' [OF w]) (auto simp: throttled_def)
    then have wq: "wellformed ?q" by (simp add: wellformed_def)
    from m have "map_of (editChannelNameTopicQueue (processEditChannelQueue now ?q)) b = Some r'"
      by (simp only: s')
    with wq obtain r where "map_of (editChannelNameTopicQueue ?q) b = Some r" and "amount r \<noteq> 1"
      using a processEditChannelQueue_created_nothing by blast
    with assms(2) show ?thesis
      by (auto simp: enqueue_def AList.update_conv')
  qed
  with p t show ?thesis by (auto simp: editChannel_deferred_iff)
qed

text \<open>
  Claim C6, on the code. In \<open>two_open\<close> channel \<open>b\<close> has a record with count 1 whose
  window ends at 600000, and no drain cycle runs. A third throttled edit to channel \<open>a\<close>
  at time 0 is deferred and starts the drain cycle; the drain pass it runs deletes the
  record of \<open>b\<close>, inside the window of \<open>b\<close>. The same edit at time 700000, after the
  window of \<open>b\<close>, leaves the record of \<open>b\<close> as it was: the pass treats a record exactly
  when its window has not elapsed. The decision for a later edit to \<open>b\<close> is not made worse
  by either (lemma \<open>edit_to_a_never_defers_b\<close>).
\<close>

theorem deferred_edit_to_a_deletes_record_of_b:
  "map_of (editChannelNameTopicQueue two_open) ''b'' =
     Some \<lparr>amount = 1, timestamp = 600000, channelID = ''b'', items = []\<rparr>
   \<and> fst (editChannel granted wide_table 0 ''a'' (rename ''a3'') None two_open) = Inr None
   \<and> map_of (editChannelNameTopicQueue
        (snd (editChannel granted wide_table 0 ''a'' (rename ''a3'') None two_open))) ''b'' = None
   \<and> map_of (editChannelNameTopicQueue
        (snd (editChannel granted wide_table 700000 ''a'' (rename ''a3'') None two_open))) ''b'' =
       Some \<lparr>amount = 1, timestamp = 600000, channelID = ''b'', items = []\<rparr>"
  by (simp add: granted_def rename_def truthy_def editChannel_def two_open_def enqueue_def
      processEditChannelQueue_def drainRequest_def Let_def)

section \<open>Properties of the permission aggregation\<close>








end
